theory Spec2Isabelle
  imports Complex_Main
begin

section \<open>Python strings and integer parsing\<close>

text \<open>
  A Python \<open>str\<close> is modelled as a \<open>string\<close> whose characters are the code points
  below 256.  \<open>str.strip()\<close> and \<open>int(str)\<close> agree on what white space is; among these
  code points it is 9-13, 28-32, 133 and 160.  The only decimal digits among them are
  \<open>0\<close> to \<open>9\<close>.
\<close>

definition is_space :: "char \<Rightarrow> bool" where
  "is_space c = (of_char c \<in> {9, 10, 11, 12, 13, 28, 29, 30, 31, 32, 133, 160 :: nat})"

definition is_digit :: "char \<Rightarrow> bool" where
  "is_digit c = (48 \<le> (of_char c :: nat) \<and> (of_char c :: nat) \<le> 57)"

definition digit_val :: "char \<Rightarrow> int" where
  "digit_val c = int (of_char c) - 48"

text \<open>\<open>s.strip()\<close>: white space removed at both ends.\<close>

definition str_strip :: "string \<Rightarrow> string" where
  "str_strip s = rev (dropWhile is_space (rev (dropWhile is_space s)))"

text \<open>\<open>s.split(sep)\<close> for a one-character separator: the empty string gives \<open>['']\<close>.\<close>

fun str_split :: "char \<Rightarrow> string \<Rightarrow> string list" where
  "str_split sep [] = [[]]"
| "str_split sep (c # cs) =
     (if c = sep then [] # str_split sep cs
      else (case str_split sep cs of
              [] \<Rightarrow> [[c]]
            | w # ws \<Rightarrow> (c # w) # ws))"

text \<open>
  \<open>int(s)\<close> in base 10: white space is stripped, one sign is allowed, then decimal digits,
  where a single underscore may stand between two digits.  \<open>None\<close> is \<open>ValueError\<close>.
  (The limit of CPython 3.11 on the number of digits, 4300 by default, is not modelled.)
\<close>

fun digits_val :: "int \<Rightarrow> string \<Rightarrow> int option" where
  "digits_val acc [] = Some acc"
| "digits_val acc [c] = (if is_digit c then Some (acc * 10 + digit_val c) else None)"
| "digits_val acc (c # d # ds) =
     (if is_digit c then digits_val (acc * 10 + digit_val c) (d # ds)
      else if c = CHR ''_'' \<and> is_digit d then digits_val (acc * 10 + digit_val d) ds
      else None)"

definition unsigned_val :: "string \<Rightarrow> int option" where
  "unsigned_val s =
     (case s of
        [] \<Rightarrow> None
      | c # cs \<Rightarrow> if is_digit c then digits_val (digit_val c) cs else None)"

definition py_int :: "string \<Rightarrow> int option" where
  "py_int s =
     (case str_strip s of
        [] \<Rightarrow> None
      | c # cs \<Rightarrow>
          if c = CHR ''-'' then map_option uminus (unsigned_val cs)
          else if c = CHR ''+'' then unsigned_val cs
          else unsigned_val (c # cs))"

section \<open>Dictionaries in insertion order\<close>

text \<open>
  \<open>d[k] = v\<close> on a Python dict: an existing key keeps its place and gets the new value,
  a new key goes to the end.  Lookup is \<^const>\<open>map_of\<close>.
\<close>

fun dict_set :: "('k \<times> 'v) list \<Rightarrow> 'k \<Rightarrow> 'v \<Rightarrow> ('k \<times> 'v) list" where
  "dict_set [] k v = [(k, v)]"
| "dict_set ((k', v') # d) k v =
     (if k' = k then (k, v) # d else (k', v') # dict_set d k v)"

section \<open>Console output\<close>

text \<open>
  The \<open>print\<close> calls inside the loops of \<open>create_taxonomy\<close> and
  \<open>create_network_graph\<close> are recorded as events, in the order in which they run; the
  text of a message is reduced to the values it is built from.  The summaries printed
  after the loops, and what \<open>build_graph\<close> prints, are left out.
\<close>

datatype py_error = ValueError | KeyError | TypeError | AttributeError
  | NetworkXPointlessConcept

datatype event =
    CouldNotParseLine string
  | ProcessingPost int string int
  | TaxonomyParsed "(int \<times> string) list"
  | CouldNotParseCluster string int
  | ErrorProcessingRow int py_error

section \<open>create_taxonomy\<close>

type_synonym taxonomy = "(int \<times> string) list"

text \<open>
  One turn of the loop over the lines.  \<open>int(line[0])\<close> is applied to the one-character
  string \<open>line[0]\<close>; the line is not empty there, so \<open>IndexError\<close> cannot happen.
\<close>

definition taxonomy_line :: "taxonomy \<times> event list \<Rightarrow> string \<Rightarrow> taxonomy \<times> event list" where
  "taxonomy_line acc raw =
     (let output = fst acc; log = snd acc; line = str_strip raw in
      if line \<noteq> [] \<and> length line > 4 then
        (case py_int (take 1 line) of
           Some number \<Rightarrow> (dict_set output number (str_strip (drop 4 line)), log)
         | None \<Rightarrow> (output, log @ [CouldNotParseLine line]))
      else (output, log))"

definition create_taxonomy :: "string \<Rightarrow> taxonomy \<times> event list" where
  "create_taxonomy taxonomy_str =
     foldl taxonomy_line ([], []) (str_split CHR 0x0A (str_strip taxonomy_str))"

section \<open>Rows of the CSV file\<close>

text \<open>
  The input of \<open>create_network_graph\<close> is modelled from the point where
  \<open>csv.DictReader\<close> hands over its rows.  In such a row a column that the header does not
  have is \<open>Absent\<close> (\<open>row[k]\<close> raises \<open>KeyError\<close>), a column that a short line does
  not reach holds \<open>None\<close> (\<open>NoValue\<close>), and any other column holds text.
\<close>

datatype cell = Absent | NoValue | Text string

record row =
  post_number :: cell
  caption :: cell
  url :: cell
  likes :: cell
  number_of_hashtags :: cell
  types_of_patterns :: cell
  taxonomy_text :: cell

text \<open>\<open>int(row[k])\<close>, \<open>row[k].strip()\<close> and \<open>row[k]\<close>.\<close>

definition int_of_cell :: "cell \<Rightarrow> py_error + int" where
  "int_of_cell c =
     (case c of
        Absent \<Rightarrow> Inl KeyError
      | NoValue \<Rightarrow> Inl TypeError
      | Text s \<Rightarrow> (case py_int s of None \<Rightarrow> Inl ValueError | Some n \<Rightarrow> Inr n))"

definition strip_of_cell :: "cell \<Rightarrow> py_error + string" where
  "strip_of_cell c =
     (case c of
        Absent \<Rightarrow> Inl KeyError
      | NoValue \<Rightarrow> Inl AttributeError
      | Text s \<Rightarrow> Inr (str_strip s))"

definition item_of_cell :: "cell \<Rightarrow> py_error + string option" where
  "item_of_cell c =
     (case c of
        Absent \<Rightarrow> Inl KeyError
      | NoValue \<Rightarrow> Inr None
      | Text s \<Rightarrow> Inr (Some s))"

section \<open>The containers of create_network_graph\<close>

record post =
  p_caption :: "string option"
  p_url :: "string option"
  p_likes :: int
  p_hashtags :: int
  p_clusters :: "int list"

record stats =
  s_likes :: "int list"
  s_hashtags :: "int list"
  s_posts :: "int list"

text \<open>
  \<open>posts_by_cluster\<close> and \<open>cluster_stats\<close> are \<open>defaultdict\<close>s: reading a key that is
  not there gives the default (an empty list, a record of three empty lists).
\<close>

definition posts_of :: "(int \<rightharpoonup> int list) \<Rightarrow> int \<Rightarrow> int list" where
  "posts_of m c = (case m c of None \<Rightarrow> [] | Some ps \<Rightarrow> ps)"

definition stats_of :: "(int \<rightharpoonup> stats) \<Rightarrow> int \<Rightarrow> stats" where
  "stats_of m c =
     (case m c of
        None \<Rightarrow> \<lparr>s_likes = [], s_hashtags = [], s_posts = []\<rparr>
      | Some s \<Rightarrow> s)"

text \<open>
  The state of the loop over the rows: the four containers, the local variable
  \<open>post_num\<close> (which keeps its value from one row to the next), \<open>row_count\<close> and the
  console output.
\<close>

record ingest =
  taxonomy :: taxonomy
  posts_by_cluster :: "int \<rightharpoonup> int list"
  cluster_stats :: "int \<rightharpoonup> stats"
  post_data :: "int \<rightharpoonup> post"
  post_num_var :: "int option"
  row_count :: nat
  out :: "event list"

definition initial :: ingest where
  "initial = \<lparr>taxonomy = [], posts_by_cluster = Map.empty, cluster_stats = Map.empty,
     post_data = Map.empty, post_num_var = None, row_count = 0, out = []\<rparr>"

section \<open>create_network_graph\<close>

text \<open>
  An exception leaves the containers as they are at that moment, so a failing step
  returns the exception together with the state.
\<close>

definition attempt ::
  "ingest \<Rightarrow> py_error + 'a \<Rightarrow> ('a \<Rightarrow> (py_error \<times> ingest) + 'b) \<Rightarrow> (py_error \<times> ingest) + 'b" where
  "attempt st x k = (case x of Inl e \<Rightarrow> Inl (e, st) | Inr v \<Rightarrow> k v)"

text \<open>The cluster assignments of a row; \<open>None\<close> is the \<open>continue\<close> of the single-value branch.\<close>

definition parse_part :: "int \<Rightarrow> int list \<times> event list \<Rightarrow> string \<Rightarrow> int list \<times> event list" where
  "parse_part post_num acc part =
     (case py_int (str_strip part) of
        Some n \<Rightarrow> (fst acc @ [n], snd acc)
      | None \<Rightarrow> (fst acc, snd acc @ [CouldNotParseCluster (str_strip part) post_num]))"

definition parse_clusters :: "string \<Rightarrow> int \<Rightarrow> int list option \<times> event list" where
  "parse_clusters cluster_str post_num =
     (if CHR '','' \<in> set cluster_str then
        (let r = foldl (parse_part post_num) ([], []) (str_split CHR '','' cluster_str)
         in (Some (fst r), snd r))
      else
        (case py_int cluster_str of
           Some n \<Rightarrow> (Some [n], [])
         | None \<Rightarrow> (None, [CouldNotParseCluster cluster_str post_num])))"

text \<open>The body of \<open>for cluster in clusters\<close>.\<close>

definition add_to_cluster :: "int \<Rightarrow> int \<Rightarrow> int \<Rightarrow> ingest \<Rightarrow> int \<Rightarrow> ingest" where
  "add_to_cluster post_num lks hts st cluster =
     (let s = stats_of (cluster_stats st) cluster in
      st\<lparr>posts_by_cluster :=
           (posts_by_cluster st)(cluster \<mapsto> posts_of (posts_by_cluster st) cluster @ [post_num]),
         cluster_stats :=
           (cluster_stats st)(cluster \<mapsto>
              \<lparr>s_likes = s_likes s @ [lks], s_hashtags = s_hashtags s @ [hts],
               s_posts = s_posts s @ [post_num]\<rparr>)\<rparr>)"

text \<open>\<open>if post_num == 1: taxonomy = create_taxonomy(row["taxonomy"])\<close> and its print.\<close>

definition taxonomy_step :: "ingest \<Rightarrow> int \<Rightarrow> cell \<Rightarrow> (py_error \<times> ingest) + ingest" where
  "taxonomy_step st post_num c =
     (if post_num = 1 then
        (case c of
           Absent \<Rightarrow> Inl (KeyError, st)
         | NoValue \<Rightarrow> Inl (AttributeError, st)
         | Text t \<Rightarrow>
             (let r = create_taxonomy t in
              Inr (st\<lparr>taxonomy := fst r, out := out st @ snd r @ [TaxonomyParsed (fst r)]\<rparr>)))
      else Inr st)"

text \<open>The body of the \<open>try\<close> inside the loop over the rows, in the order of the source.\<close>

definition row_body :: "ingest \<Rightarrow> row \<Rightarrow> (py_error \<times> ingest) + ingest" where
  "row_body st r =
     attempt st (int_of_cell (post_number r)) (\<lambda>post_num.
     let st1 = st\<lparr>post_num_var := Some post_num\<rparr> in
     attempt st1 (strip_of_cell (types_of_patterns r)) (\<lambda>cluster_str.
     attempt st1 (int_of_cell (likes r)) (\<lambda>lks.
     attempt st1 (int_of_cell (number_of_hashtags r)) (\<lambda>hashtags_count.
     let st2 = st1\<lparr>out := out st1 @ [ProcessingPost post_num cluster_str lks]\<rparr> in
     attempt st2 (item_of_cell (caption r)) (\<lambda>cap.
     attempt st2 (item_of_cell (url r)) (\<lambda>u.
     let st3 = st2\<lparr>post_data := (post_data st2)(post_num \<mapsto>
                  \<lparr>p_caption = cap, p_url = u, p_likes = lks, p_hashtags = hashtags_count,
                   p_clusters = []\<rparr>)\<rparr> in
     case taxonomy_step st3 post_num (taxonomy_text r) of
       Inl x \<Rightarrow> Inl x
     | Inr st4 \<Rightarrow>
         (case parse_clusters cluster_str post_num of
            (None, warnings) \<Rightarrow> Inr (st4\<lparr>out := out st4 @ warnings\<rparr>)
          | (Some clusters, warnings) \<Rightarrow>
              (let st5 = st4\<lparr>out := out st4 @ warnings,
                            post_data := (post_data st4)(post_num \<mapsto>
                              \<lparr>p_caption = cap, p_url = u, p_likes = lks,
                               p_hashtags = hashtags_count, p_clusters = clusters\<rparr>)\<rparr>
               in Inr (foldl (add_to_cluster post_num lks hashtags_count) st5 clusters)))))))))"

text \<open>
  One turn of the loop: \<open>ValueError\<close> and \<open>KeyError\<close> are caught, reported and the loop
  goes on; any other exception reaches the outer handler, and the function returns
  \<open>None, None, None, None\<close> (here \<open>None\<close>).
\<close>

definition process_row :: "ingest \<Rightarrow> row \<Rightarrow> ingest option" where
  "process_row st r =
     (case row_body (st\<lparr>row_count := row_count st + 1\<rparr>) r of
        Inr st' \<Rightarrow> Some st'
      | Inl (e, st') \<Rightarrow>
          if e = ValueError \<or> e = KeyError then
            Some (st'\<lparr>out := out st' @
              [ErrorProcessingRow
                 (case post_num_var st' of Some p \<Rightarrow> p | None \<Rightarrow> int (row_count st')) e]\<rparr>)
          else None)"

fun process_rows :: "ingest \<Rightarrow> row list \<Rightarrow> ingest option" where
  "process_rows st [] = Some st"
| "process_rows st (r # rs) =
     (case process_row st r of None \<Rightarrow> None | Some st' \<Rightarrow> process_rows st' rs)"

text \<open>
  The file is taken to exist and to be readable; the result holds the four returned
  containers (and the console output).
\<close>

definition create_network_graph :: "row list \<Rightarrow> ingest option" where
  "create_network_graph rows = process_rows initial rows"

section \<open>The graph\<close>

text \<open>
  An \<open>nx.Graph\<close>: the nodes with their attributes, in the order in which they were added,
  and the undirected edges, each with its attribute dictionary.  The keys an edge
  dictionary can have here are \<open>weight\<close>, \<open>shared_posts\<close>, \<open>similarity\<close> and
  \<open>edge_type\<close>; a key that is not set is \<open>None\<close>.

  A Python float is modelled by the rational number it stands for.  An arithmetic
  operation on floats gives the exact result rounded to a float; the rounding function is
  the parameter \<open>fl\<close> of the definitions below (the identity is exact arithmetic).
  Comparisons, \<open>abs\<close> and \<open>max\<close> are exact, and so is the division of one
  integer by another before it is rounded.  The integer 0 that stands for the average of
  an empty list is taken as the float 0.  Results too large for a float
  (\<open>OverflowError\<close>) are not modelled.
\<close>

definition exact :: "rat \<Rightarrow> rat" where
  "exact x = x"

record node_attrs =
  label :: string
  posts_count :: nat
  total_likes :: int
  avg_likes :: rat
  total_hashtags :: int
  avg_hashtags :: rat
  posts :: "int list"

record edge_attrs =
  weight :: "rat option"
  shared_posts :: "int list option"
  similarity :: "rat option"
  edge_type :: "string option"

record graph =
  nodes :: "(int \<times> node_attrs) list"
  edges :: "((int \<times> int) \<times> edge_attrs) list"

definition empty_graph :: graph where
  "empty_graph = \<lparr>nodes = [], edges = []\<rparr>"

text \<open>\<open>G.add_node(n, **attrs)\<close>, where \<open>attrs\<close> sets every attribute.\<close>

definition add_node :: "graph \<Rightarrow> int \<Rightarrow> node_attrs \<Rightarrow> graph" where
  "add_node G n a = G\<lparr>nodes := dict_set (nodes G) n a\<rparr>"

definition has_edge :: "graph \<Rightarrow> int \<Rightarrow> int \<Rightarrow> bool" where
  "has_edge G u v = ((u, v) \<in> set (map fst (edges G)) \<or> (v, u) \<in> set (map fst (edges G)))"

text \<open>
  \<open>G.add_edge(u, v, **attrs)\<close>: the attributes are merged into the dictionary of the
  edge when the edge is already there (in either direction), and a new edge gets them
  otherwise.  It is only ever called on two nodes of the graph.
\<close>

definition merge_attrs :: "edge_attrs \<Rightarrow> edge_attrs \<Rightarrow> edge_attrs" where
  "merge_attrs old new =
     \<lparr>weight = (case weight new of None \<Rightarrow> weight old | Some w \<Rightarrow> Some w),
      shared_posts = (case shared_posts new of None \<Rightarrow> shared_posts old | Some p \<Rightarrow> Some p),
      similarity = (case similarity new of None \<Rightarrow> similarity old | Some x \<Rightarrow> Some x),
      edge_type = (case edge_type new of None \<Rightarrow> edge_type old | Some t \<Rightarrow> Some t)\<rparr>"

fun update_edge ::
  "((int \<times> int) \<times> edge_attrs) list \<Rightarrow> int \<Rightarrow> int \<Rightarrow> edge_attrs \<Rightarrow> ((int \<times> int) \<times> edge_attrs) list" where
  "update_edge [] u v a = [((u, v), a)]"
| "update_edge (e # es) u v a =
     (if fst e = (u, v) \<or> fst e = (v, u) then (fst e, merge_attrs (snd e) a) # es
      else e # update_edge es u v a)"

definition add_edge :: "graph \<Rightarrow> int \<Rightarrow> int \<Rightarrow> edge_attrs \<Rightarrow> graph" where
  "add_edge G u v a = G\<lparr>edges := update_edge (edges G) u v a\<rparr>"

text \<open>
  \<open>nx.is_connected(G)\<close> of the networkx library: it raises
  \<open>NetworkXPointlessConcept\<close> on the graph without nodes, and otherwise tells whether a
  breadth-first search from the first node reaches every node.  A search of as many
  rounds as there are edges reaches all that can be reached.
\<close>

definition neighbors :: "graph \<Rightarrow> int \<Rightarrow> int list" where
  "neighbors G u =
     map (\<lambda>e. if fst (fst e) = u then snd (fst e) else fst (fst e))
       (filter (\<lambda>e. fst (fst e) = u \<or> snd (fst e) = u) (edges G))"

fun plain_bfs :: "graph \<Rightarrow> nat \<Rightarrow> int list \<Rightarrow> int list" where
  "plain_bfs G 0 seen = seen"
| "plain_bfs G (Suc k) seen = plain_bfs G k (remdups (seen @ concat (map (neighbors G) seen)))"

definition is_connected :: "graph \<Rightarrow> py_error + bool" where
  "is_connected G =
     (case nodes G of
        [] \<Rightarrow> Inl NetworkXPointlessConcept
      | n # ns \<Rightarrow>
          Inr (set (map fst (nodes G)) \<subseteq> set (plain_bfs G (length (edges G)) [fst n])))"

section \<open>build_graph\<close>

text \<open>\<open>for i, x in enumerate(xs): for y in xs[i+1:]\<close> visits these pairs, in this order.\<close>

fun pairs :: "'a list \<Rightarrow> ('a \<times> 'a) list" where
  "pairs [] = []"
| "pairs (x # xs) = map (Pair x) xs @ pairs xs"

text \<open>A loop whose body may raise.\<close>

fun for_each :: "('s \<Rightarrow> 'a \<Rightarrow> py_error + 's) \<Rightarrow> 's \<Rightarrow> 'a list \<Rightarrow> py_error + 's" where
  "for_each f s [] = Inr s"
| "for_each f s (x # xs) = (case f s x of Inl e \<Rightarrow> Inl e | Inr s' \<Rightarrow> for_each f s' xs)"

text \<open>\<open>sum(xs) / len(xs) if xs else 0\<close>.\<close>

definition average :: "(rat \<Rightarrow> rat) \<Rightarrow> int list \<Rightarrow> rat" where
  "average fl xs = (if xs \<noteq> [] then fl (of_int (sum_list xs) / of_nat (length xs)) else 0)"

text \<open>The body of the loop over \<open>taxonomy.items()\<close>.\<close>

definition add_cluster_node ::
  "(rat \<Rightarrow> rat) \<Rightarrow> (int \<rightharpoonup> int list) \<Rightarrow> (int \<rightharpoonup> stats) \<Rightarrow> graph \<Rightarrow> int \<times> string \<Rightarrow> graph" where
  "add_cluster_node fl pbc cs G item =
     (let cluster_id = fst item; cluster_name = snd item in
      if pbc cluster_id \<noteq> None then
        (let ps = posts_of pbc cluster_id; st = stats_of cs cluster_id in
         add_node G cluster_id
           \<lparr>label = cluster_name, posts_count = length ps,
            total_likes = sum_list (s_likes st), avg_likes = average fl (s_likes st),
            total_hashtags = sum_list (s_hashtags st), avg_hashtags = average fl (s_hashtags st),
            posts = ps\<rparr>)
      else G)"

text \<open>
  \<open>set(posts1).intersection(set(posts2))\<close>, as a list without repetitions.  Python fixes no
  order for \<open>list(shared_posts)\<close>; the order chosen here is that of \<open>posts1\<close>, and no
  theorem below depends on it.
\<close>

definition intersection :: "int list \<Rightarrow> int list \<Rightarrow> int list" where
  "intersection posts1 posts2 = remdups (filter (\<lambda>p. p \<in> set posts2) posts1)"

text \<open>The body of the first double loop.\<close>

definition direct_edge :: "(int \<rightharpoonup> int list) \<Rightarrow> graph \<Rightarrow> int \<times> int \<Rightarrow> graph" where
  "direct_edge pbc G pr =
     (let cluster1 = fst pr; cluster2 = snd pr;
          shared = intersection (posts_of pbc cluster1) (posts_of pbc cluster2) in
      if shared \<noteq> [] then
        add_edge G cluster1 cluster2
          \<lparr>weight = Some (of_nat (length shared)), shared_posts = Some shared,
           similarity = None, edge_type = None\<rparr>
      else G)"

text \<open>The body of the second double loop; \<open>G.nodes[c]\<close> raises \<open>KeyError\<close> off the nodes.\<close>

definition avg_likes_of :: "graph \<Rightarrow> int \<Rightarrow> py_error + rat" where
  "avg_likes_of G c =
     (case map_of (nodes G) c of None \<Rightarrow> Inl KeyError | Some a \<Rightarrow> Inr (avg_likes a))"

text \<open>\<open>max_avg = max(avg1, avg2, 1)\<close> and \<open>similarity = 1 - abs(avg1 - avg2) / max_avg\<close>.\<close>

definition similarity_of :: "(rat \<Rightarrow> rat) \<Rightarrow> rat \<Rightarrow> rat \<Rightarrow> rat" where
  "similarity_of fl avg1 avg2 =
     (let max_avg = max (max avg1 avg2) 1 in fl (1 - fl (\<bar>fl (avg1 - avg2)\<bar> / max_avg)))"

text \<open>The literal \<open>0.7\<close> is the float nearest to seven tenths.\<close>

definition similarity_threshold :: "(rat \<Rightarrow> rat) \<Rightarrow> rat" where
  "similarity_threshold fl = fl (7 / 10)"

definition similarity_edge :: "(rat \<Rightarrow> rat) \<Rightarrow> graph \<Rightarrow> int \<times> int \<Rightarrow> py_error + graph" where
  "similarity_edge fl G pr =
     (let cluster1 = fst pr; cluster2 = snd pr in
      if \<not> has_edge G cluster1 cluster2 then
        (case avg_likes_of G cluster1 of
           Inl e \<Rightarrow> Inl e
         | Inr avg1 \<Rightarrow>
             (case avg_likes_of G cluster2 of
                Inl e \<Rightarrow> Inl e
              | Inr avg2 \<Rightarrow>
                  (let sim = similarity_of fl avg1 avg2 in
                   if sim > similarity_threshold fl then
                     Inr (add_edge G cluster1 cluster2
                       \<lparr>weight = Some (1 / 2), shared_posts = None, similarity = Some sim,
                        edge_type = Some ''similarity''\<rparr>)
                   else Inr G)))
      else Inr G)"

text \<open>The three phases, and the function itself.\<close>

definition node_phase ::
  "(rat \<Rightarrow> rat) \<Rightarrow> taxonomy \<Rightarrow> (int \<rightharpoonup> int list) \<Rightarrow> (int \<rightharpoonup> stats) \<Rightarrow> graph" where
  "node_phase fl tax pbc cs = foldl (add_cluster_node fl pbc cs) empty_graph tax"

definition direct_phase :: "(int \<rightharpoonup> int list) \<Rightarrow> graph \<Rightarrow> graph" where
  "direct_phase pbc G = foldl (direct_edge pbc) G (pairs (map fst (nodes G)))"

definition similarity_phase :: "(rat \<Rightarrow> rat) \<Rightarrow> int list \<Rightarrow> graph \<Rightarrow> py_error + graph" where
  "similarity_phase fl clusters G = for_each (similarity_edge fl) G (pairs clusters)"

definition build_graph ::
  "(rat \<Rightarrow> rat) \<Rightarrow> taxonomy \<Rightarrow> (int \<rightharpoonup> int list) \<Rightarrow> (int \<rightharpoonup> stats) \<Rightarrow> py_error + graph" where
  "build_graph fl tax pbc cs =
     (let G0 = node_phase fl tax pbc cs;
          clusters = map fst (nodes G0);
          G1 = direct_phase pbc G0 in
      case is_connected G1 of
        Inl e \<Rightarrow> Inl e
      | Inr conn \<Rightarrow>
          (case (if \<not> conn \<and> length (nodes G1) > 1
                 then similarity_phase fl clusters G1 else Inr G1) of
             Inl e \<Rightarrow> Inl e
           | Inr G2 \<Rightarrow>
               (case is_connected G2 of Inl e \<Rightarrow> Inl e | Inr c \<Rightarrow> Inr G2)))"


section \<open>Notions used in the statements\<close>

text \<open>A node carries the posts of its cluster, and their number.\<close>

definition node_ok :: "(int \<rightharpoonup> int list) \<Rightarrow> int \<times> node_attrs \<Rightarrow> bool" where
  "node_ok pbc n =
     (posts (snd n) = posts_of pbc (fst n) \<and> posts_count (snd n) = length (posts (snd n)))"

text \<open>The attributes of the edge that the first double loop gives to a pair, and its test.\<close>

definition direct_attrs :: "(int \<rightharpoonup> int list) \<Rightarrow> int \<times> int \<Rightarrow> edge_attrs" where
  "direct_attrs pbc p =
     \<lparr>weight = Some (of_nat (length (intersection (posts_of pbc (fst p)) (posts_of pbc (snd p))))),
      shared_posts = Some (intersection (posts_of pbc (fst p)) (posts_of pbc (snd p))),
      similarity = None, edge_type = None\<rparr>"

definition shares :: "(int \<rightharpoonup> int list) \<Rightarrow> int \<times> int \<Rightarrow> bool" where
  "shares pbc p = (intersection (posts_of pbc (fst p)) (posts_of pbc (snd p)) \<noteq> [])"

definition fresh :: "graph \<Rightarrow> int \<times> int \<Rightarrow> bool" where
  "fresh G p = (\<not> has_edge G (fst p) (snd p))"

text \<open>The same for the second double loop.\<close>

definition avg :: "(int \<times> node_attrs) list \<Rightarrow> int \<Rightarrow> rat" where
  "avg ns c = (case map_of ns c of None \<Rightarrow> 0 | Some a \<Rightarrow> avg_likes a)"

definition sim_attrs :: "(rat \<Rightarrow> rat) \<Rightarrow> (int \<times> node_attrs) list \<Rightarrow> int \<times> int \<Rightarrow> edge_attrs" where
  "sim_attrs fl ns p =
     \<lparr>weight = Some (1 / 2), shared_posts = None,
      similarity = Some (similarity_of fl (avg ns (fst p)) (avg ns (snd p))),
      edge_type = Some ''similarity''\<rparr>"

definition similar :: "(rat \<Rightarrow> rat) \<Rightarrow> (int \<times> node_attrs) list \<Rightarrow> int \<times> int \<Rightarrow> bool" where
  "similar fl ns p = (similarity_of fl (avg ns (fst p)) (avg ns (snd p)) > similarity_threshold fl)"

definition direct_edges :: "(int \<rightharpoonup> int list) \<Rightarrow> int list \<Rightarrow> ((int \<times> int) \<times> edge_attrs) list" where
  "direct_edges pbc ks = map (\<lambda>p. (p, direct_attrs pbc p)) (filter (shares pbc) (pairs ks))"

definition similarity_edges ::
  "(rat \<Rightarrow> rat) \<Rightarrow> graph \<Rightarrow> int list \<Rightarrow> ((int \<times> int) \<times> edge_attrs) list" where
  "similarity_edges fl G ks =
     map (\<lambda>p. (p, sim_attrs fl (nodes G) p))
       (filter (\<lambda>p. fresh G p \<and> similar fl (nodes G) p) (pairs ks))"

text \<open>The graph after the first double loop.\<close>

definition direct_graph ::
  "(rat \<Rightarrow> rat) \<Rightarrow> taxonomy \<Rightarrow> (int \<rightharpoonup> int list) \<Rightarrow> (int \<rightharpoonup> stats) \<Rightarrow> graph" where
  "direct_graph fl tax pbc cs = direct_phase pbc (node_phase fl tax pbc cs)"

text \<open>The attribute dictionaries of the edges that join two nodes, in either direction.\<close>

definition attrs_between ::
  "int \<Rightarrow> int \<Rightarrow> ((int \<times> int) \<times> edge_attrs) list \<Rightarrow> edge_attrs list" where
  "attrs_between u v es = map snd (filter (\<lambda>e. fst e = (u, v) \<or> fst e = (v, u)) es)"

definition edges_between :: "graph \<Rightarrow> int \<Rightarrow> int \<Rightarrow> edge_attrs list" where
  "edges_between G u v = attrs_between u v (edges G)"

text \<open>Whether \<open>build_graph\<close> enters the second double loop.\<close>

definition repaired ::
  "(rat \<Rightarrow> rat) \<Rightarrow> taxonomy \<Rightarrow> (int \<rightharpoonup> int list) \<Rightarrow> (int \<rightharpoonup> stats) \<Rightarrow> bool" where
  "repaired fl tax pbc cs =
     (is_connected (direct_graph fl tax pbc cs) \<noteq> Inr True \<and>
      length (nodes (direct_graph fl tax pbc cs)) > 1)"

section \<open>A small input\<close>

text \<open>
  Three posts: post 1 with 100 likes and 5 hashtags in the categories 1 and 2, post 2 with
  50 likes and 3 hashtags in category 2, post 3 with 10 likes and 1 hashtag in category 3;
  the first row carries the taxonomy of the categories 1, 2 and 3.
\<close>

definition scenario_row :: "string \<Rightarrow> string \<Rightarrow> string \<Rightarrow> string \<Rightarrow> string \<Rightarrow> row" where
  "scenario_row n pat lks hts tax =
     \<lparr>post_number = Text n, caption = Text ''a caption'', url = Text ''instagram.com/p/x'',
      likes = Text lks, number_of_hashtags = Text hts, types_of_patterns = Text pat,
      taxonomy_text = Text tax\<rparr>"

definition scenario_rows :: "row list" where
  "scenario_rows =
     [scenario_row ''1'' ''1,2'' ''100'' ''5'' ''1. - A\<newline>2. - B\<newline>3. - C'',
      scenario_row ''2'' ''2'' ''50'' ''3'' '''',
      scenario_row ''3'' ''3'' ''10'' ''1'' '''']"

definition scenario_taxonomy :: taxonomy where
  "scenario_taxonomy = [(1, ''A''), (2, ''B''), (3, ''C'')]"

definition scenario_posts :: "int \<rightharpoonup> int list" where
  "scenario_posts = [1 \<mapsto> [1], 2 \<mapsto> [1, 2], 3 \<mapsto> [3]]"

definition scenario_stats :: "int \<rightharpoonup> stats" where
  "scenario_stats =
     [1 \<mapsto> \<lparr>s_likes = [100], s_hashtags = [5], s_posts = [1]\<rparr>,
      2 \<mapsto> \<lparr>s_likes = [100, 50], s_hashtags = [5, 3], s_posts = [1, 2]\<rparr>,
      3 \<mapsto> \<lparr>s_likes = [10], s_hashtags = [1], s_posts = [3]\<rparr>]"

definition scenario_nodes :: "(int \<times> node_attrs) list" where
  "scenario_nodes =
     [(1, \<lparr>label = ''A'', posts_count = 1, total_likes = 100, avg_likes = 100,
           total_hashtags = 5, avg_hashtags = 5, posts = [1]\<rparr>),
      (2, \<lparr>label = ''B'', posts_count = 2, total_likes = 150, avg_likes = 75,
           total_hashtags = 8, avg_hashtags = 4, posts = [1, 2]\<rparr>),
      (3, \<lparr>label = ''C'', posts_count = 1, total_likes = 10, avg_likes = 10,
           total_hashtags = 1, avg_hashtags = 1, posts = [3]\<rparr>)]"

definition scenario_graph :: graph where
  "scenario_graph =
     \<lparr>nodes = scenario_nodes,
      edges = [((1, 2), \<lparr>weight = Some 1, shared_posts = Some [1], similarity = None,
                        edge_type = None\<rparr>)]\<rparr>"

section \<open>What one row contributes\<close>

text \<open>
  The values a row yields when all of \<open>row["post number"]\<close>, \<open>row["types of patterns"]\<close>,
  \<open>row["likes"]\<close>, \<open>row["number of hashtags"]\<close>, \<open>row["caption"]\<close> and \<open>row["url"]\<close>
  can be read; \<open>None\<close> otherwise.
\<close>

record row_fields =
  f_post_num :: int
  f_cluster_str :: string
  f_likes :: int
  f_hashtags :: int
  f_caption :: "string option"
  f_url :: "string option"

definition read_fields :: "row \<Rightarrow> row_fields option" where
  "read_fields r =
     (case int_of_cell (post_number r) of Inl e \<Rightarrow> None | Inr p \<Rightarrow>
      case strip_of_cell (types_of_patterns r) of Inl e \<Rightarrow> None | Inr s \<Rightarrow>
      case int_of_cell (likes r) of Inl e \<Rightarrow> None | Inr l \<Rightarrow>
      case int_of_cell (number_of_hashtags r) of Inl e \<Rightarrow> None | Inr h \<Rightarrow>
      case item_of_cell (caption r) of Inl e \<Rightarrow> None | Inr c \<Rightarrow>
      case item_of_cell (url r) of Inl e \<Rightarrow> None | Inr u \<Rightarrow>
        Some \<lparr>f_post_num = p, f_cluster_str = s, f_likes = l, f_hashtags = h,
              f_caption = c, f_url = u\<rparr>)"

text \<open>The taxonomy a row makes \<open>create_network_graph\<close> parse, if it does.\<close>

definition row_taxonomy :: "row \<Rightarrow> taxonomy option" where
  "row_taxonomy r =
     (case read_fields r of
        None \<Rightarrow> None
      | Some f \<Rightarrow>
          if f_post_num f = 1 then
            (case taxonomy_text r of Text t \<Rightarrow> Some (fst (create_taxonomy t)) | _ \<Rightarrow> None)
          else None)"

text \<open>The clusters whose accumulators a row reaches: none when the row is given up before.\<close>

definition row_clusters :: "row \<Rightarrow> int list" where
  "row_clusters r =
     (case read_fields r of
        None \<Rightarrow> []
      | Some f \<Rightarrow>
          if f_post_num f = 1 \<and> row_taxonomy r = None then []
          else (case fst (parse_clusters (f_cluster_str f) (f_post_num f)) of
                  None \<Rightarrow> [] | Some cs \<Rightarrow> cs))"

text \<open>The record a row leaves in \<open>post_data\<close>, with its key.\<close>

definition row_record :: "row \<Rightarrow> (int \<times> post) option" where
  "row_record r =
     (case read_fields r of
        None \<Rightarrow> None
      | Some f \<Rightarrow>
          Some (f_post_num f,
                \<lparr>p_caption = f_caption f, p_url = f_url f, p_likes = f_likes f,
                 p_hashtags = f_hashtags f, p_clusters = row_clusters r\<rparr>))"

text \<open>The numbers a row appends to the accumulator of cluster \<open>c\<close>.\<close>

definition appended :: "(row_fields \<Rightarrow> int) \<Rightarrow> int \<Rightarrow> row \<Rightarrow> int list" where
  "appended field c r =
     (case read_fields r of
        None \<Rightarrow> []
      | Some f \<Rightarrow> replicate (count_list (row_clusters r) c) (field f))"





text \<open>What \<open>create_network_graph\<close> returns on the three rows.\<close>

definition scenario_state :: ingest where
  "scenario_state =
     \<lparr>taxonomy = scenario_taxonomy, posts_by_cluster = scenario_posts,
      cluster_stats = scenario_stats,
      post_data =
        [1 \<mapsto> \<lparr>p_caption = Some ''a caption'', p_url = Some ''instagram.com/p/x'',
               p_likes = 100, p_hashtags = 5, p_clusters = [1, 2]\<rparr>,
         2 \<mapsto> \<lparr>p_caption = Some ''a caption'', p_url = Some ''instagram.com/p/x'',
               p_likes = 50, p_hashtags = 3, p_clusters = [2]\<rparr>,
         3 \<mapsto> \<lparr>p_caption = Some ''a caption'', p_url = Some ''instagram.com/p/x'',
               p_likes = 10, p_hashtags = 1, p_clusters = [3]\<rparr>],
      post_num_var = Some 3, row_count = 3,
      out = [ProcessingPost 1 ''1,2'' 100, TaxonomyParsed scenario_taxonomy,
             ProcessingPost 2 ''2'' 50, ProcessingPost 3 ''3'' 10]\<rparr>"







section \<open>Connectedness, as a graph property\<close>

text \<open>
  Two nodes are adjacent when an edge joins them, in either direction; a graph is
  connected when every node can be reached from every node along edges.
\<close>

definition adjacent :: "graph \<Rightarrow> (int \<times> int) set" where
  "adjacent G = {(u, v). has_edge G u v}"

definition graph_connected :: "graph \<Rightarrow> bool" where
  "graph_connected G =
     (\<forall>u \<in> set (map fst (nodes G)). \<forall>v \<in> set (map fst (nodes G)). (u, v) \<in> (adjacent G)\<^sup>*)"

text \<open>The number of edges with both ends in a set of nodes.\<close>

definition inside :: "graph \<Rightarrow> int set \<Rightarrow> nat" where
  "inside G S = length (filter (\<lambda>e. fst (fst e) \<in> S \<and> snd (fst e) \<in> S) (edges G))"

section \<open>The lines of a taxonomy text\<close>

text \<open>
  The trimmed lines of the trimmed text; the lines that give an entry; and the names that
  the lines with the digit of \<open>n\<close> give, in the order of the lines.
\<close>

definition taxonomy_lines :: "string \<Rightarrow> string list" where
  "taxonomy_lines s = map str_strip (str_split CHR 0x0A (str_strip s))"

definition entry_line :: "string \<Rightarrow> bool" where
  "entry_line l = (length l > 4 \<and> is_digit (hd l))"

definition warned_line :: "string \<Rightarrow> bool" where
  "warned_line l = (length l > 4 \<and> \<not> is_digit (hd l))"

definition names_for :: "int \<Rightarrow> string list \<Rightarrow> string list" where
  "names_for n ls =
     map (\<lambda>l. str_strip (drop 4 l)) (filter (\<lambda>l. entry_line l \<and> digit_val (hd l) = n) ls)"

section \<open>Roundings\<close>


section \<open>Two more small inputs\<close>

text \<open>Two categories without a common post and with average likes 100 and 80.\<close>

definition near_taxonomy :: taxonomy where
  "near_taxonomy = [(1, ''A''), (2, ''B'')]"





text \<open>Two categories that share post 1.\<close>

definition linked_posts :: "int \<rightharpoonup> int list" where
  "linked_posts = [1 \<mapsto> [1], 2 \<mapsto> [1]]"

definition linked_stats :: "int \<rightharpoonup> stats" where
  "linked_stats =
     [1 \<mapsto> \<lparr>s_likes = [100], s_hashtags = [5], s_posts = [1]\<rparr>,
      2 \<mapsto> \<lparr>s_likes = [100], s_hashtags = [5], s_posts = [1]\<rparr>]"

definition linked_graph :: graph where
  "linked_graph =
     \<lparr>nodes =
        [(1, \<lparr>label = ''A'', posts_count = 1, total_likes = 100, avg_likes = 100,
              total_hashtags = 5, avg_hashtags = 5, posts = [1]\<rparr>),
         (2, \<lparr>label = ''B'', posts_count = 1, total_likes = 100, avg_likes = 100,
              total_hashtags = 5, avg_hashtags = 5, posts = [1]\<rparr>)],
      edges = [((1, 2), \<lparr>weight = Some 1, shared_posts = Some [1], similarity = None,
                        edge_type = None\<rparr>)]\<rparr>"

section \<open>Facts about the graph phases\<close>


lemma dict_set_keys:
  "map fst (dict_set d k v) = (if k \<in> set (map fst d) then map fst d else map fst d @ [k])"
  by (induction d) (force+)

lemma dict_set_keys_set: "fst ` set (dict_set d k v) = insert k (fst ` set d)"
  using arg_cong[OF dict_set_keys[of d k v], of set] by (auto split: if_splits)

lemma dict_set_distinct: "distinct (map fst d) \<Longrightarrow> distinct (map fst (dict_set d k v))"
  by (simp add: dict_set_keys)

lemma map_of_dict_set: "map_of (dict_set d k v) = (map_of d)(k \<mapsto> v)"
  by (induction d) (auto simp: fun_eq_iff)

lemma add_cluster_node_edges: "edges (add_cluster_node fl pbc cs G item) = edges G"
  by (simp add: add_cluster_node_def add_node_def Let_def)

lemma add_cluster_node_distinct:
  "distinct (map fst (nodes G)) \<Longrightarrow> distinct (map fst (nodes (add_cluster_node fl pbc cs G item)))"
  by (simp add: add_cluster_node_def add_node_def Let_def dict_set_distinct)

lemma add_cluster_node_keys:
  "set (map fst (nodes (add_cluster_node fl pbc cs G item))) =
     set (map fst (nodes G)) \<union> (if pbc (fst item) \<noteq> None then {fst item} else {})"
  by (auto simp: add_cluster_node_def add_node_def Let_def dict_set_keys_set)

lemma nodes_fold_edges: "edges (foldl (add_cluster_node fl pbc cs) G tax) = edges G"
  by (induction tax arbitrary: G) (simp_all add: add_cluster_node_edges)

lemma nodes_fold_distinct:
  "distinct (map fst (nodes G)) \<Longrightarrow> distinct (map fst (nodes (foldl (add_cluster_node fl pbc cs) G tax)))"
  by (induction tax arbitrary: G) (simp_all add: add_cluster_node_distinct)

lemma nodes_fold_keys:
  "set (map fst (nodes (foldl (add_cluster_node fl pbc cs) G tax))) =
     set (map fst (nodes G)) \<union> {c \<in> set (map fst tax). pbc c \<noteq> None}"
proof (induction tax arbitrary: G)
  case Nil
  show ?case by simp
next
  case (Cons item tax)
  show ?case
    unfolding foldl_Cons Cons.IH add_cluster_node_keys by auto
qed

lemma dict_set_all: "list_all P d \<Longrightarrow> P (k, v) \<Longrightarrow> list_all P (dict_set d k v)"
  by (induction d) auto

lemma node_ok_new:
  "node_ok pbc (c, \<lparr>label = l, posts_count = length (posts_of pbc c), total_likes = tlk,
      avg_likes = al, total_hashtags = tht, avg_hashtags = aht, posts = posts_of pbc c\<rparr>)"
  by (simp add: node_ok_def)

lemma nodes_fold_attrs:
  "list_all (node_ok pbc) (nodes G) \<Longrightarrow>
     list_all (node_ok pbc) (nodes (foldl (add_cluster_node fl pbc cs) G tax))"
proof (induction tax arbitrary: G)
  case Nil
  then show ?case by simp
next
  case (Cons item tax)
  have "list_all (node_ok pbc) (nodes (add_cluster_node fl pbc cs G item))"
    using Cons.prems
    by (auto simp: add_cluster_node_def add_node_def Let_def intro!: dict_set_all node_ok_new)
  then show ?case using Cons.IH by simp
qed

lemma node_phase_distinct: "distinct (map fst (nodes (node_phase fl tax pbc cs)))"
  by (simp add: node_phase_def nodes_fold_distinct empty_graph_def)

lemma node_phase_edges: "edges (node_phase fl tax pbc cs) = []"
  by (simp add: node_phase_def nodes_fold_edges empty_graph_def)

lemma node_phase_keys:
  "set (map fst (nodes (node_phase fl tax pbc cs))) = {c \<in> set (map fst tax). pbc c \<noteq> None}"
  using nodes_fold_keys[of fl pbc cs empty_graph tax] by (simp add: node_phase_def empty_graph_def)

lemma node_phase_attrs: "list_all (node_ok pbc) (nodes (node_phase fl tax pbc cs))"
  by (simp add: node_phase_def nodes_fold_attrs empty_graph_def)

lemma update_edge_new:
  "(u, v) \<notin> set (map fst es) \<Longrightarrow> (v, u) \<notin> set (map fst es) \<Longrightarrow>
     update_edge es u v a = es @ [((u, v), a)]"
  by (induction es) auto

lemma pairs_subset: "p \<in> set (pairs xs) \<Longrightarrow> fst p \<in> set xs \<and> snd p \<in> set xs"
  by (induction xs) auto

lemma pairs_distinct: "distinct xs \<Longrightarrow> distinct (pairs xs)"
proof (induction xs)
  case Nil
  show ?case by simp
next
  case (Cons x xs)
  have "distinct (map (Pair x) xs)"
    using Cons.prems by (simp add: distinct_map inj_on_def)
  moreover have "set (map (Pair x) xs) \<inter> set (pairs xs) = {}"
    using Cons.prems pairs_subset[of _ xs] by fastforce
  ultimately show ?case using Cons by simp
qed

lemma pairs_asym_aux: "distinct xs \<Longrightarrow> (u, v) \<in> set (pairs xs) \<Longrightarrow> (v, u) \<notin> set (pairs xs)"
proof (induction xs)
  case Nil
  then show ?case by simp
next
  case (Cons x xs)
  have a: "\<And>a b. (a, b) \<in> set (pairs xs) \<Longrightarrow> a \<in> set xs \<and> b \<in> set xs"
    using pairs_subset[of _ xs] by fastforce
  show ?case using Cons a by auto
qed

lemma pairs_asym: "distinct xs \<Longrightarrow> p \<in> set (pairs xs) \<Longrightarrow> (snd p, fst p) \<notin> set (pairs xs)"
  using pairs_asym_aux[of xs "fst p" "snd p"] by simp

lemma pairs_total:
  "u \<in> set xs \<Longrightarrow> v \<in> set xs \<Longrightarrow> u \<noteq> v \<Longrightarrow> (u, v) \<in> set (pairs xs) \<or> (v, u) \<in> set (pairs xs)"
  by (induction xs) auto

lemma direct_edge_fresh:
  "fresh G p \<Longrightarrow>
     direct_edge pbc G p = (if shares pbc p then G\<lparr>edges := edges G @ [(p, direct_attrs pbc p)]\<rparr> else G)"
  by (simp add: direct_edge_def fresh_def has_edge_def Let_def shares_def direct_attrs_def
        add_edge_def update_edge_new)

lemma direct_fold:
  "distinct ps \<Longrightarrow> list_all (\<lambda>p. (snd p, fst p) \<notin> set ps) ps \<Longrightarrow> list_all (fresh G) ps \<Longrightarrow>
     foldl (direct_edge pbc) G ps =
       G\<lparr>edges := edges G @ map (\<lambda>p. (p, direct_attrs pbc p)) (filter (shares pbc) ps)\<rparr>"
proof (induction ps arbitrary: G)
  case Nil
  show ?case by simp
next
  case (Cons p ps)
  let ?G = "direct_edge pbc G p"
  have step: "?G = (if shares pbc p then G\<lparr>edges := edges G @ [(p, direct_attrs pbc p)]\<rparr> else G)"
    using Cons.prems by (simp add: direct_edge_fresh)
  have f: "list_all (fresh ?G) ps"
    using Cons.prems unfolding step
    by (auto simp: list_all_iff fresh_def has_edge_def)
  have d: "distinct ps" "list_all (\<lambda>p. (snd p, fst p) \<notin> set ps) ps"
    using Cons.prems by (auto simp: list_all_iff)
  have "foldl (direct_edge pbc) ?G ps =
       ?G\<lparr>edges := edges ?G @ map (\<lambda>p. (p, direct_attrs pbc p)) (filter (shares pbc) ps)\<rparr>"
    using d f by (rule Cons.IH)
  then show ?case by (simp add: step)
qed

lemma avg_likes_of_node: "c \<in> set (map fst (nodes G)) \<Longrightarrow> avg_likes_of G c = Inr (avg (nodes G) c)"
  by (auto simp: avg_likes_of_def avg_def map_of_eq_None_iff split: option.splits)

lemma similarity_edge_step:
  "fst p \<in> set (map fst (nodes G)) \<Longrightarrow> snd p \<in> set (map fst (nodes G)) \<Longrightarrow>
     similarity_edge fl G p =
       Inr (if fresh G p \<and> similar fl (nodes G) p
            then G\<lparr>edges := edges G @ [(p, sim_attrs fl (nodes G) p)]\<rparr> else G)"
  by (simp add: similarity_edge_def Let_def avg_likes_of_node fresh_def similar_def sim_attrs_def
        add_edge_def update_edge_new has_edge_def)

lemma similarity_fold:
  "distinct ps \<Longrightarrow> list_all (\<lambda>p. (snd p, fst p) \<notin> set ps) ps \<Longrightarrow>
   list_all (\<lambda>p. fst p \<in> set (map fst (nodes G)) \<and> snd p \<in> set (map fst (nodes G))) ps \<Longrightarrow>
     for_each (similarity_edge fl) G ps =
       Inr (G\<lparr>edges := edges G @
              map (\<lambda>p. (p, sim_attrs fl (nodes G) p)) (filter (\<lambda>p. fresh G p \<and> similar fl (nodes G) p) ps)\<rparr>)"
proof (induction ps arbitrary: G)
  case Nil
  show ?case by simp
next
  case (Cons p ps)
  let ?G = "if fresh G p \<and> similar fl (nodes G) p
            then G\<lparr>edges := edges G @ [(p, sim_attrs fl (nodes G) p)]\<rparr> else G"
  have step: "similarity_edge fl G p = Inr ?G"
    using Cons.prems by (simp add: similarity_edge_step)
  have n: "nodes ?G = nodes G" by simp
  have d: "distinct ps" "list_all (\<lambda>p. (snd p, fst p) \<notin> set ps) ps"
    using Cons.prems by (auto simp: list_all_iff)
  have k: "list_all (\<lambda>p. fst p \<in> set (map fst (nodes ?G)) \<and> snd p \<in> set (map fst (nodes ?G))) ps"
    using Cons.prems unfolding n by simp
  have f: "\<And>q. q \<in> set ps \<Longrightarrow> fresh ?G q = fresh G q"
    using Cons.prems by (auto simp: list_all_iff fresh_def has_edge_def)
  have "for_each (similarity_edge fl) ?G ps =
       Inr (?G\<lparr>edges := edges ?G @
              map (\<lambda>p. (p, sim_attrs fl (nodes ?G) p)) (filter (\<lambda>p. fresh ?G p \<and> similar fl (nodes ?G) p) ps)\<rparr>)"
    using d k by (rule Cons.IH)
  moreover have "filter (\<lambda>p. fresh ?G p \<and> similar fl (nodes ?G) p) ps
      = filter (\<lambda>p. fresh G p \<and> similar fl (nodes G) p) ps"
    unfolding n using f by (auto intro: filter_cong)
  ultimately show ?case unfolding n by (simp add: step)
qed

lemma pairs_asym_all: "distinct xs \<Longrightarrow> list_all (\<lambda>p. (snd p, fst p) \<notin> set (pairs xs)) (pairs xs)"
  by (simp add: list_all_iff pairs_asym)

lemma direct_phase_eq:
  assumes "distinct (map fst (nodes G))" "edges G = []"
  shows "direct_phase pbc G = G\<lparr>edges := direct_edges pbc (map fst (nodes G))\<rparr>"
proof -
  have "list_all (fresh G) (pairs (map fst (nodes G)))"
    using assms(2) by (simp add: list_all_iff fresh_def has_edge_def)
  then show ?thesis
    unfolding direct_phase_def direct_edges_def
    using direct_fold[OF pairs_distinct[OF assms(1)] pairs_asym_all[OF assms(1)], of G pbc] assms(2)
    by simp
qed

lemma similarity_phase_eq:
  assumes "distinct (map fst (nodes G))"
  shows "similarity_phase fl (map fst (nodes G)) G =
     Inr (G\<lparr>edges := edges G @ similarity_edges fl G (map fst (nodes G))\<rparr>)"
proof -
  have "list_all (\<lambda>p. fst p \<in> set (map fst (nodes G)) \<and> snd p \<in> set (map fst (nodes G)))
          (pairs (map fst (nodes G)))"
    using pairs_subset[of _ "map fst (nodes G)"] by (auto simp: list_all_iff)
  then show ?thesis
    unfolding similarity_phase_def similarity_edges_def
    using similarity_fold[OF pairs_distinct[OF assms] pairs_asym_all[OF assms]] by blast
qed

lemma direct_graph_nodes: "nodes (direct_graph fl tax pbc cs) = nodes (node_phase fl tax pbc cs)"
  by (simp add: direct_graph_def direct_phase_eq node_phase_distinct node_phase_edges)

lemma direct_graph_edges:
  "edges (direct_graph fl tax pbc cs) = direct_edges pbc (map fst (nodes (node_phase fl tax pbc cs)))"
  by (simp add: direct_graph_def direct_phase_eq node_phase_distinct node_phase_edges)

lemma is_connected_cases:
  "is_connected G = (if nodes G = [] then Inl NetworkXPointlessConcept
     else Inr (set (map fst (nodes G)) \<subseteq> set (plain_bfs G (length (edges G)) [fst (hd (nodes G))])))"
  by (cases "nodes G") (simp_all add: is_connected_def)

lemma build_graph_eq:
  "build_graph fl tax pbc cs =
     (let G1 = direct_graph fl tax pbc cs in
      if nodes G1 = [] then Inl NetworkXPointlessConcept
      else if is_connected G1 \<noteq> Inr True \<and> length (nodes G1) > 1
        then Inr (G1\<lparr>edges := edges G1 @ similarity_edges fl G1 (map fst (nodes G1))\<rparr>)
        else Inr G1)"
proof -
  let ?G1 = "direct_graph fl tax pbc cs"
  have d: "distinct (map fst (nodes ?G1))"
    by (simp add: direct_graph_nodes node_phase_distinct)
  have n: "map fst (nodes (node_phase fl tax pbc cs)) = map fst (nodes ?G1)"
    by (simp add: direct_graph_nodes)
  show ?thesis
  proof (cases "nodes ?G1 = []")
    case True
    then show ?thesis
      unfolding build_graph_def Let_def direct_graph_def[symmetric]
      by (simp add: is_connected_cases)
  next
    case False
    then show ?thesis
      unfolding build_graph_def Let_def direct_graph_def[symmetric] n
      by (simp add: is_connected_cases similarity_phase_eq[OF d])
  qed
qed

lemma build_graph_no_nodes:
  assumes "list_all (\<lambda>item. pbc (fst item) = None) tax"
  shows "build_graph fl tax pbc cs = Inl NetworkXPointlessConcept"
proof -
  have "set (map fst (nodes (node_phase fl tax pbc cs))) = {}"
    unfolding node_phase_keys using assms by (auto simp: list_all_iff)
  then have "nodes (direct_graph fl tax pbc cs) = []"
    by (simp add: direct_graph_nodes)
  then show ?thesis by (simp add: build_graph_eq)
qed



lemma between_map_filter:
  "distinct ps \<Longrightarrow> list_all (\<lambda>p. (snd p, fst p) \<notin> set ps) ps \<Longrightarrow>
     attrs_between u v (map (\<lambda>p. (p, f p)) (filter Q ps)) =
       (if (u, v) \<in> set ps \<and> Q (u, v) then [f (u, v)]
        else if (v, u) \<in> set ps \<and> Q (v, u) then [f (v, u)] else [])"
proof (induction ps)
  case Nil
  show ?case by (simp add: attrs_between_def)
next
  case (Cons p ps)
  have d: "distinct ps" "list_all (\<lambda>p. (snd p, fst p) \<notin> set ps) ps"
    using Cons.prems by (auto simp: list_all_iff)
  note IH = Cons.IH[OF d]
  have h: "p \<notin> set ps" "(snd p, fst p) \<notin> set ps" "(snd p, fst p) \<noteq> p"
    using Cons.prems by (auto simp: list_all_iff)
  show ?case
  proof (cases "p = (u, v) \<or> p = (v, u)")
    case True
    then show ?thesis using h IH by (auto simp: attrs_between_def)
  next
    case False
    then show ?thesis using IH by (auto simp: attrs_between_def)
  qed
qed

lemma attrs_between_append:
  "attrs_between u v (es @ fs) = attrs_between u v es @ attrs_between u v fs"
  by (simp add: attrs_between_def)

lemma attrs_between_Nil: "attrs_between u v [] = []"
  by (simp add: attrs_between_def)

lemma attrs_between_sym: "attrs_between v u es = attrs_between u v es"
  unfolding attrs_between_def by (rule arg_cong[where f="map snd"], rule filter_cong) auto

lemma intersection_set: "set (intersection xs ys) = set xs \<inter> set ys"
  by (auto simp: intersection_def)

lemma intersection_distinct: "distinct (intersection xs ys)"
  by (simp add: intersection_def)

lemma intersection_length: "length (intersection xs ys) = card (set xs \<inter> set ys)"
  using distinct_card[OF intersection_distinct, of xs ys] by (simp add: intersection_set)

lemma shares_iff: "shares pbc (u, v) = (set (posts_of pbc u) \<inter> set (posts_of pbc v) \<noteq> {})"
  using intersection_set[of "posts_of pbc u" "posts_of pbc v"] by (auto simp: shares_def)

lemma shares_sym: "shares pbc (v, u) = shares pbc (u, v)"
  by (auto simp: shares_iff)

lemma direct_edges_between:
  assumes "distinct ks"
  shows "attrs_between u v (direct_edges pbc ks) =
       (if (u, v) \<in> set (pairs ks) \<and> shares pbc (u, v) then [direct_attrs pbc (u, v)]
        else if (v, u) \<in> set (pairs ks) \<and> shares pbc (v, u) then [direct_attrs pbc (v, u)] else [])"
  unfolding direct_edges_def
  by (rule between_map_filter[OF pairs_distinct[OF assms] pairs_asym_all[OF assms]])

lemma similarity_edges_between:
  assumes "distinct ks"
  shows "attrs_between u v (similarity_edges fl G ks) =
       (if (u, v) \<in> set (pairs ks) \<and> (fresh G (u, v) \<and> similar fl (nodes G) (u, v))
          then [sim_attrs fl (nodes G) (u, v)]
        else if (v, u) \<in> set (pairs ks) \<and> (fresh G (v, u) \<and> similar fl (nodes G) (v, u))
          then [sim_attrs fl (nodes G) (v, u)] else [])"
  unfolding similarity_edges_def
  by (rule between_map_filter[OF pairs_distinct[OF assms] pairs_asym_all[OF assms]])

lemma direct_graph_fresh:
  assumes "p \<in> set (pairs (map fst (nodes (direct_graph fl tax pbc cs))))"
  shows "fresh (direct_graph fl tax pbc cs) p = (\<not> shares pbc p)"
proof -
  let ?ks = "map fst (nodes (node_phase fl tax pbc cs))"
  have d: "distinct ?ks" by (rule node_phase_distinct)
  have p: "p \<in> set (pairs ?ks)" using assms by (simp add: direct_graph_nodes)
  have q: "(snd p, fst p) \<notin> set (pairs ?ks)" using pairs_asym[OF d p] .
  have "set (map fst (edges (direct_graph fl tax pbc cs))) = {q \<in> set (pairs ?ks). shares pbc q}"
    by (auto simp: direct_graph_edges direct_edges_def)
  then show ?thesis using p q by (auto simp: fresh_def has_edge_def)
qed



lemma build_graph_nodes:
  "build_graph fl tax pbc cs = Inr G \<Longrightarrow> nodes G = nodes (node_phase fl tax pbc cs)"
  by (auto simp: build_graph_eq Let_def direct_graph_nodes split: if_splits)

lemma build_graph_edges:
  "build_graph fl tax pbc cs = Inr G \<Longrightarrow>
     edges G = direct_edges pbc (map fst (nodes G)) @
       (if repaired fl tax pbc cs
        then similarity_edges fl (direct_graph fl tax pbc cs) (map fst (nodes G)) else [])"
  by (auto simp: build_graph_eq Let_def direct_graph_nodes direct_graph_edges repaired_def
      split: if_splits)

lemma build_graph_between:
  assumes G: "build_graph fl tax pbc cs = Inr G"
    and p: "(u, v) \<in> set (pairs (map fst (nodes G)))"
  shows "edges_between G u v =
     (if shares pbc (u, v) then [direct_attrs pbc (u, v)]
      else if repaired fl tax pbc cs \<and> similar fl (nodes G) (u, v) then [sim_attrs fl (nodes G) (u, v)]
      else [])"
    and "edges_between G v u = edges_between G u v"
proof -
  let ?G1 = "direct_graph fl tax pbc cs"
  have n: "nodes G = nodes (node_phase fl tax pbc cs)" using G by (rule build_graph_nodes)
  have n1: "nodes ?G1 = nodes G" by (simp add: n direct_graph_nodes)
  have d: "distinct (map fst (nodes G))" unfolding n by (rule node_phase_distinct)
  have q: "(v, u) \<notin> set (pairs (map fst (nodes G)))" using pairs_asym[OF d p] by simp
  have f: "fresh ?G1 (u, v) = (\<not> shares pbc (u, v))"
    using direct_graph_fresh[of "(u, v)" fl tax pbc cs] p by (simp add: n1)
  show "edges_between G u v =
     (if shares pbc (u, v) then [direct_attrs pbc (u, v)]
      else if repaired fl tax pbc cs \<and> similar fl (nodes G) (u, v) then [sim_attrs fl (nodes G) (u, v)]
      else [])"
    unfolding edges_between_def build_graph_edges[OF G] attrs_between_append
    using p q f
    by (simp add: direct_edges_between[OF d] similarity_edges_between[OF d] n1 attrs_between_Nil)
  show "edges_between G v u = edges_between G u v"
    unfolding edges_between_def by (rule attrs_between_sym)
qed

lemma build_graph_not_between:
  assumes G: "build_graph fl tax pbc cs = Inr G"
    and p: "(u, v) \<notin> set (pairs (map fst (nodes G)))" "(v, u) \<notin> set (pairs (map fst (nodes G)))"
  shows "edges_between G u v = []"
proof -
  have n: "nodes G = nodes (node_phase fl tax pbc cs)" using G by (rule build_graph_nodes)
  have d: "distinct (map fst (nodes G))" unfolding n by (rule node_phase_distinct)
  show ?thesis
    unfolding edges_between_def build_graph_edges[OF G] attrs_between_append
    using p by (simp add: direct_edges_between[OF d] similarity_edges_between[OF d] attrs_between_Nil)
qed

lemma build_graph_node_ok:
  assumes G: "build_graph fl tax pbc cs = Inr G" and a: "map_of (nodes G) u = Some a"
  shows "posts a = posts_of pbc u" "posts_count a = length (posts_of pbc u)"
    "u \<in> set (map fst (nodes G))"
proof -
  have "list_all (node_ok pbc) (nodes G)"
    using build_graph_nodes[OF G] node_phase_attrs[of pbc fl tax cs] by simp
  moreover have m: "(u, a) \<in> set (nodes G)" using a by (rule map_of_SomeD)
  ultimately have "node_ok pbc (u, a)" by (auto simp: list_all_iff)
  then show "posts a = posts_of pbc u" "posts_count a = length (posts_of pbc u)"
    by (simp_all add: node_ok_def)
  show "u \<in> set (map fst (nodes G))" using m by force
qed

lemma direct_attrs_shape:
  "\<exists>l. direct_attrs pbc (u, v) =
      \<lparr>weight = Some (of_nat (card (set (posts_of pbc u) \<inter> set (posts_of pbc v)))),
       shared_posts = Some l, similarity = None, edge_type = None\<rparr> \<and>
      distinct l \<and> set l = set (posts_of pbc u) \<inter> set (posts_of pbc v)"
  by (simp add: direct_attrs_def intersection_length intersection_distinct intersection_set)

lemma direct_edge_unique:
  assumes G: "build_graph fl tax pbc cs = Inr G"
    and a: "map_of (nodes G) u = Some a" and b: "map_of (nodes G) v = Some b" and ne: "u \<noteq> v"
  shows "(set (posts a) \<inter> set (posts b) \<noteq> {} \<longrightarrow>
           (\<exists>l. edges_between G u v =
                  [\<lparr>weight = Some (of_nat (card (set (posts a) \<inter> set (posts b)))),
                    shared_posts = Some l, similarity = None, edge_type = None\<rparr>] \<and>
                distinct l \<and> set l = set (posts a) \<inter> set (posts b))) \<and>
         (set (posts a) \<inter> set (posts b) = {} \<longrightarrow>
           list_all (\<lambda>e. shared_posts e = None) (edges_between G u v))"
proof -
  note na = build_graph_node_ok[OF G a] and nb = build_graph_node_ok[OF G b]
  have "(u, v) \<in> set (pairs (map fst (nodes G))) \<or> (v, u) \<in> set (pairs (map fst (nodes G)))"
    using pairs_total[OF na(3) nb(3) ne] .
  then show ?thesis
  proof
    assume p: "(u, v) \<in> set (pairs (map fst (nodes G)))"
    show ?thesis
      using build_graph_between(1)[OF G p] direct_attrs_shape[of pbc u v]
      by (auto simp: na(1) nb(1) shares_iff sim_attrs_def)
  next
    assume p: "(v, u) \<in> set (pairs (map fst (nodes G)))"
    have i: "set (posts_of pbc u) \<inter> set (posts_of pbc v) = set (posts_of pbc v) \<inter> set (posts_of pbc u)"
      by auto
    show ?thesis
      using build_graph_between[OF G p] direct_attrs_shape[of pbc v u]
      by (auto simp: na(1) nb(1) shares_iff sim_attrs_def i)
  qed
qed

lemma edge_kinds:
  assumes G: "build_graph fl tax pbc cs = Inr G"
  shows "length (edges_between G u v) \<le> 1"
    and "list_all (\<lambda>e. (shared_posts (snd e) = None) \<noteq> (similarity (snd e) = None)) (edges G)"
proof -
  show "length (edges_between G u v) \<le> 1"
  proof (cases "(u, v) \<in> set (pairs (map fst (nodes G)))")
    case True
    then show ?thesis using build_graph_between(1)[OF G True] by simp
  next
    case False
    show ?thesis
    proof (cases "(v, u) \<in> set (pairs (map fst (nodes G)))")
      case True
      then show ?thesis using build_graph_between[OF G True] by simp
    next
      case False2: False
      show ?thesis using build_graph_not_between[OF G False False2] by simp
    qed
  qed
  show "list_all (\<lambda>e. (shared_posts (snd e) = None) \<noteq> (similarity (snd e) = None)) (edges G)"
    unfolding build_graph_edges[OF G]
    by (auto simp: list_all_iff direct_edges_def similarity_edges_def direct_attrs_def sim_attrs_def)
qed


section \<open>Facts about the ingestion\<close>



lemma fold_add_posts:
  "posts_of (posts_by_cluster (foldl (add_to_cluster p l h) st cs)) c =
     posts_of (posts_by_cluster st) c @ replicate (count_list cs c) p"
  by (induction cs arbitrary: st) (simp_all add: add_to_cluster_def Let_def posts_of_def)

lemma fold_add_keys:
  "(posts_by_cluster (foldl (add_to_cluster p l h) st cs) c = None) =
     (posts_by_cluster st c = None \<and> c \<notin> set cs)"
  by (induction cs arbitrary: st) (auto simp: add_to_cluster_def Let_def)











lemmas row_defs = process_row_def row_body_def attempt_def taxonomy_step_def
  read_fields_def row_taxonomy_def row_clusters_def row_record_def appended_def Let_def





lemma process_row_posts:
  assumes "process_row st r = Some st'"
  shows "posts_of (posts_by_cluster st') c = posts_of (posts_by_cluster st) c @ appended f_post_num c r"
  using assms unfolding row_defs
  by (auto split: sum.splits option.splits cell.splits if_splits prod.splits simp: fold_add_posts)

lemma process_row_keys:
  assumes "process_row st r = Some st'"
  shows "(posts_by_cluster st' c = None) = (posts_by_cluster st c = None \<and> c \<notin> set (row_clusters r))"
  using assms unfolding row_defs
  by (auto split: sum.splits option.splits cell.splits if_splits prod.splits simp: fold_add_keys)










lemma process_rows_posts:
  "process_rows st rows = Some st' \<Longrightarrow>
     posts_of (posts_by_cluster st') c =
       posts_of (posts_by_cluster st) c @ concat (map (appended f_post_num c) rows)"
proof (induction rows arbitrary: st)
  case Nil
  then show ?case by simp
next
  case (Cons r rows)
  then obtain st1 where 1: "process_row st r = Some st1" and 2: "process_rows st1 rows = Some st'"
    by (auto split: option.splits)
  show ?case
    using Cons.IH[OF 2] process_row_posts[OF 1] by simp
qed


lemma process_rows_keys:
  "process_rows st rows = Some st' \<Longrightarrow>
     (posts_by_cluster st' c = None) =
       (posts_by_cluster st c = None \<and> list_all (\<lambda>r. c \<notin> set (row_clusters r)) rows)"
proof (induction rows arbitrary: st)
  case Nil
  then show ?case by simp
next
  case (Cons r rows)
  then obtain st1 where 1: "process_row st r = Some st1" and 2: "process_rows st1 rows = Some st'"
    by (auto split: option.splits)
  show ?case
    using Cons.IH[OF 2] process_row_keys[OF 1] by auto
qed

lemma appended_empty: "(appended field c r = []) = (c \<notin> set (row_clusters r))"
  by (auto simp: appended_def row_clusters_def count_list_0_iff split: option.splits)

lemma ingested_key_iff:
  assumes "create_network_graph rows = Some st"
  shows "(posts_by_cluster st c \<noteq> None) = (posts_of (posts_by_cluster st) c \<noteq> [])"
proof -
  have p: "process_rows initial rows = Some st" using assms by (simp add: create_network_graph_def)
  have "(posts_by_cluster st c = None) = list_all (\<lambda>r. c \<notin> set (row_clusters r)) rows"
    using process_rows_keys[OF p, of c] by (simp add: initial_def)
  moreover have "(posts_of (posts_by_cluster st) c = []) = list_all (\<lambda>r. c \<notin> set (row_clusters r)) rows"
    using process_rows_posts[OF p, of c]
    by (auto simp: initial_def posts_of_def appended_empty list_all_iff)
  ultimately show ?thesis by simp
qed


section \<open>The small inputs, evaluated\<close>


lemma py_int_values:
  "py_int ''1'' = Some 1" "py_int ''2'' = Some 2" "py_int ''3'' = Some 3"
  "py_int ''4'' = Some 4" "py_int ''5'' = Some 5" "py_int ''7'' = Some 7"
  "py_int ''10'' = Some 10" "py_int ''20'' = Some 20" "py_int ''30'' = Some 30"
  "py_int ''50'' = Some 50" "py_int ''100'' = Some 100" "py_int ''abc'' = None"
  by code_simp+

lemma create_taxonomy_values:
  "create_taxonomy ''1. - A\<newline>2. - B\<newline>3. - C'' = (scenario_taxonomy, [])"
  "create_taxonomy ''1. - A'' = ([(1, ''A'')], [])"
  "create_taxonomy ''2. - B'' = ([(2, ''B'')], [])"
  by code_simp+

lemma parse_clusters_values:
  "parse_clusters ''1,2'' 1 = (Some [1, 2], [])"
  "parse_clusters ''1'' 1 = (Some [1], [])"
  "parse_clusters ''2'' 1 = (Some [2], [])"
  "parse_clusters ''2'' 2 = (Some [2], [])"
  "parse_clusters ''3'' 3 = (Some [3], [])"
  "parse_clusters ''2'' 7 = (Some [2], [])"
  "parse_clusters ''abc'' 5 = (None, [CouldNotParseCluster ''abc'' 5])"
  by code_simp+

lemma str_strip_values:
  "str_strip ''1,2'' = ''1,2''" "str_strip ''1'' = ''1''" "str_strip ''2'' = ''2''"
  "str_strip ''3'' = ''3''" "str_strip ''abc'' = ''abc''"
  by code_simp+

lemmas run_rows = create_network_graph_def scenario_row_def process_row_def row_body_def
  attempt_def int_of_cell_def strip_of_cell_def item_of_cell_def py_int_values
  create_taxonomy_values parse_clusters_values str_strip_values taxonomy_step_def
  initial_def add_to_cluster_def posts_of_def stats_of_def Let_def

lemma scenario_ingested: "create_network_graph scenario_rows = Some scenario_state"
  by (simp add: run_rows scenario_rows_def scenario_state_def scenario_posts_def scenario_stats_def)



lemma scenario_built:
  "build_graph exact scenario_taxonomy scenario_posts scenario_stats = Inr scenario_graph"
  by code_simp


section \<open>From the rows to the nodes\<close>


lemma nodes_iff_posts:
  assumes "create_network_graph rows = Some st"
  shows "(c \<in> set (map fst (nodes (node_phase fl (taxonomy st) (posts_by_cluster st) (cluster_stats st))))) =
           (c \<in> set (map fst (taxonomy st)) \<and> posts_of (posts_by_cluster st) c \<noteq> [])"
    and "list_all (\<lambda>n. 1 \<le> posts_count (snd n))
           (nodes (node_phase fl (taxonomy st) (posts_by_cluster st) (cluster_stats st)))"
proof -
  let ?G = "node_phase fl (taxonomy st) (posts_by_cluster st) (cluster_stats st)"
  note k = ingested_key_iff[OF assms]
  show "(c \<in> set (map fst (nodes ?G))) =
           (c \<in> set (map fst (taxonomy st)) \<and> posts_of (posts_by_cluster st) c \<noteq> [])"
    unfolding node_phase_keys using k[of c] by simp
  have "\<And>n. n \<in> set (nodes ?G) \<Longrightarrow> 1 \<le> posts_count (snd n)"
  proof -
    fix n assume n: "n \<in> set (nodes ?G)"
    then have "fst n \<in> set (map fst (nodes ?G))" by simp
    then have "posts_by_cluster st (fst n) \<noteq> None" unfolding node_phase_keys by simp
    then have "posts_of (posts_by_cluster st) (fst n) \<noteq> []" using k[of "fst n"] by simp
    moreover have "node_ok (posts_by_cluster st) n"
      using node_phase_attrs[of "posts_by_cluster st" fl "taxonomy st" "cluster_stats st"] n
      by (simp add: list_all_iff)
    ultimately show "1 \<le> posts_count (snd n)"
      by (cases "posts_of (posts_by_cluster st) (fst n)") (simp_all add: node_ok_def)
  qed
  then show "list_all (\<lambda>n. 1 \<le> posts_count (snd n)) (nodes ?G)"
    by (simp add: list_all_iff)
qed








section \<open>The connectivity test is right\<close>


lemma adjacent_sym: "(u, v) \<in> adjacent G \<Longrightarrow> (v, u) \<in> adjacent G"
  by (auto simp: adjacent_def has_edge_def)

lemma neighbors_set: "set (neighbors G u) = adjacent G `` {u}"
proof
  show "set (neighbors G u) \<subseteq> adjacent G `` {u}"
    by (auto simp: neighbors_def adjacent_def has_edge_def image_iff) force+
  show "adjacent G `` {u} \<subseteq> set (neighbors G u)"
  proof
    fix v assume "v \<in> adjacent G `` {u}"
    then consider a where "((u, v), a) \<in> set (edges G)" | a where "((v, u), a) \<in> set (edges G)"
      by (auto simp: adjacent_def has_edge_def)
    then show "v \<in> set (neighbors G u)"
    proof cases
      case 1
      then show ?thesis unfolding neighbors_def by (force simp: image_iff)
    next
      case 2
      then show ?thesis unfolding neighbors_def by (force simp: image_iff)
    qed
  qed
qed

lemma step_set:
  "set (remdups (seen @ concat (map (neighbors G) seen))) = set seen \<union> adjacent G `` set seen"
  by (auto simp: neighbors_set)

lemma plain_bfs_grows: "set seen \<subseteq> set (plain_bfs G k seen)"
proof (induction k arbitrary: seen)
  case 0
  show ?case by simp
next
  case (Suc k)
  have "set seen \<subseteq> set (remdups (seen @ concat (map (neighbors G) seen)))"
    unfolding step_set by blast
  also have "\<dots> \<subseteq> set (plain_bfs G k (remdups (seen @ concat (map (neighbors G) seen))))"
    by (rule Suc.IH)
  finally show ?case by (simp only: plain_bfs.simps)
qed

lemma plain_bfs_sound: "set (plain_bfs G k seen) \<subseteq> (adjacent G)\<^sup>* `` set seen"
proof (induction k arbitrary: seen)
  case 0
  show ?case by auto
next
  case (Suc k)
  let ?next = "remdups (seen @ concat (map (neighbors G) seen))"
  have "set (plain_bfs G k ?next) \<subseteq> (adjacent G)\<^sup>* `` set ?next"
    by (rule Suc.IH)
  also have "\<dots> \<subseteq> (adjacent G)\<^sup>* `` set seen"
    unfolding step_set by (auto intro: converse_rtrancl_into_rtrancl)
  finally show ?case by (simp only: plain_bfs.simps)
qed

lemma plain_bfs_closed_stays:
  "adjacent G `` set seen \<subseteq> set seen \<Longrightarrow> set (plain_bfs G k seen) = set seen"
proof (induction k arbitrary: seen)
  case 0
  show ?case by simp
next
  case (Suc k)
  let ?next = "remdups (seen @ concat (map (neighbors G) seen))"
  have n: "set ?next = set seen" unfolding step_set using Suc.prems by blast
  then have "adjacent G `` set ?next \<subseteq> set ?next" using Suc.prems by simp
  then have "set (plain_bfs G k ?next) = set ?next" by (rule Suc.IH)
  then have "set (plain_bfs G k ?next) = set seen" using n by (simp only:)
  then show ?case by (simp only: plain_bfs.simps)
qed

lemma filter_length_mono:
  "(\<And>x. x \<in> set xs \<Longrightarrow> P x \<Longrightarrow> Q x) \<Longrightarrow> length (filter P xs) \<le> length (filter Q xs)"
  by (induction xs) auto

lemma filter_length_strict:
  "(\<And>x. x \<in> set xs \<Longrightarrow> P x \<Longrightarrow> Q x) \<Longrightarrow> y \<in> set xs \<Longrightarrow> Q y \<Longrightarrow> \<not> P y \<Longrightarrow>
     length (filter P xs) < length (filter Q xs)"
proof (induction xs)
  case Nil
  then show ?case by simp
next
  case (Cons x xs)
  have m: "length (filter P xs) \<le> length (filter Q xs)"
    using Cons.prems(1) by (intro filter_length_mono) auto
  show ?case
  proof (cases "y = x")
    case True
    then show ?thesis using Cons.prems m by auto
  next
    case False
    then have "length (filter P xs) < length (filter Q xs)"
      using Cons.prems by (intro Cons.IH) auto
    then show ?thesis using Cons.prems(1)[of x] by auto
  qed
qed

lemma inside_full_closed:
  assumes "length (edges G) \<le> inside G S"
  shows "adjacent G `` S \<subseteq> S"
proof -
  have "length (filter (\<lambda>e. fst (fst e) \<in> S \<and> snd (fst e) \<in> S) (edges G)) = length (edges G)"
    using assms length_filter_le[of "\<lambda>e. fst (fst e) \<in> S \<and> snd (fst e) \<in> S" "edges G"]
    by (simp add: inside_def)
  then have "\<And>e. e \<in> set (edges G) \<Longrightarrow> fst (fst e) \<in> S \<and> snd (fst e) \<in> S"
    by (metis (mono_tags, lifting) filter_id_conv length_filter_less less_irrefl)
  then show ?thesis
    by (fastforce simp: adjacent_def has_edge_def)
qed

lemma inside_grows:
  assumes "\<not> adjacent G `` S \<subseteq> S"
  shows "inside G S < inside G (S \<union> adjacent G `` S)"
proof -
  from assms obtain u w where uw: "u \<in> S" "(u, w) \<in> adjacent G" "w \<notin> S" by auto
  then obtain e where e: "e \<in> set (edges G)" "fst e = (u, w) \<or> fst e = (w, u)"
    by (auto simp: adjacent_def has_edge_def)
  have w: "w \<in> S \<union> adjacent G `` S" using uw by auto
  show ?thesis
    unfolding inside_def
  proof (rule filter_length_strict[where y = e])
    show "e \<in> set (edges G)" by fact
    show "fst (fst e) \<in> S \<union> adjacent G `` S \<and> snd (fst e) \<in> S \<union> adjacent G `` S"
      using e(2) uw(1) w by auto
    show "\<not> (fst (fst e) \<in> S \<and> snd (fst e) \<in> S)"
      using e(2) uw(3) by auto
  qed auto
qed

lemma plain_bfs_closed:
  "length (edges G) \<le> k + inside G (set seen) \<Longrightarrow>
     adjacent G `` set (plain_bfs G k seen) \<subseteq> set (plain_bfs G k seen)"
proof (induction k arbitrary: seen)
  case 0
  then show ?case using inside_full_closed[of G "set seen"] by simp
next
  case (Suc k)
  let ?next = "remdups (seen @ concat (map (neighbors G) seen))"
  show ?case
  proof (cases "adjacent G `` set seen \<subseteq> set seen")
    case True
    then show ?thesis unfolding plain_bfs_closed_stays[OF True, of "Suc k"] .
  next
    case False
    have "inside G (set seen) < inside G (set ?next)"
      unfolding step_set using inside_grows[OF False] .
    then have "length (edges G) \<le> k + inside G (set ?next)"
      using Suc.prems by simp
    then have "adjacent G `` set (plain_bfs G k ?next) \<subseteq> set (plain_bfs G k ?next)"
      by (rule Suc.IH)
    then show ?thesis by (simp only: plain_bfs.simps)
  qed
qed

lemma closed_rtrancl:
  assumes "adjacent G `` S \<subseteq> S" and "(u, v) \<in> (adjacent G)\<^sup>*" and "u \<in> S"
  shows "v \<in> S"
  using assms(2,3,1) by (induction rule: rtrancl_induct) auto

lemma plain_bfs_reach:
  "set (plain_bfs G (length (edges G)) [n]) = (adjacent G)\<^sup>* `` {n}"
proof
  show "set (plain_bfs G (length (edges G)) [n]) \<subseteq> (adjacent G)\<^sup>* `` {n}"
    using plain_bfs_sound[of G "length (edges G)" "[n]"] by simp
  have c: "adjacent G `` set (plain_bfs G (length (edges G)) [n]) \<subseteq> set (plain_bfs G (length (edges G)) [n])"
    by (rule plain_bfs_closed) simp
  have n: "n \<in> set (plain_bfs G (length (edges G)) [n])"
    using plain_bfs_grows[of "[n]" G "length (edges G)"] by simp
  show "(adjacent G)\<^sup>* `` {n} \<subseteq> set (plain_bfs G (length (edges G)) [n])"
    using closed_rtrancl[OF c _ n] by auto
qed

lemma adjacent_rtrancl_sym: "(u, v) \<in> (adjacent G)\<^sup>* \<Longrightarrow> (v, u) \<in> (adjacent G)\<^sup>*"
proof (induction rule: rtrancl_induct)
  case base
  show ?case by simp
next
  case (step y z)
  then show ?case using adjacent_sym[of y z G] by (meson converse_rtrancl_into_rtrancl)
qed

lemma is_connected_correct:
  assumes "nodes G \<noteq> []"
  shows "is_connected G = Inr (graph_connected G)"
proof -
  obtain n ns where ns: "nodes G = n # ns" using assms by (cases "nodes G") auto
  have "(set (map fst (nodes G)) \<subseteq> (adjacent G)\<^sup>* `` {fst n}) = graph_connected G"
  proof
    assume a: "set (map fst (nodes G)) \<subseteq> (adjacent G)\<^sup>* `` {fst n}"
    show "graph_connected G"
      unfolding graph_connected_def
    proof (intro ballI)
      fix u v assume "u \<in> set (map fst (nodes G))" "v \<in> set (map fst (nodes G))"
      then have "(fst n, u) \<in> (adjacent G)\<^sup>*" "(fst n, v) \<in> (adjacent G)\<^sup>*" using a by auto
      then show "(u, v) \<in> (adjacent G)\<^sup>*"
        using adjacent_rtrancl_sym[of "fst n" u G] by (meson rtrancl_trans)
    qed
  next
    assume "graph_connected G"
    then show "set (map fst (nodes G)) \<subseteq> (adjacent G)\<^sup>* `` {fst n}"
      unfolding graph_connected_def using ns by auto
  qed
  then show ?thesis
    by (simp add: is_connected_def ns plain_bfs_reach)
qed


section \<open>The repair pass, the similarity, and the taxonomy lines\<close>


lemma repaired_iff:
  "repaired fl tax pbc cs =
     (1 < length (nodes (direct_graph fl tax pbc cs)) \<and> \<not> graph_connected (direct_graph fl tax pbc cs))"
proof (cases "nodes (direct_graph fl tax pbc cs) = []")
  case True
  then show ?thesis by (simp add: repaired_def)
next
  case False
  then show ?thesis by (auto simp: repaired_def is_connected_correct)
qed

lemma build_graph_one_pass:
  assumes "build_graph fl tax pbc cs = Inr G"
  shows "Inr G =
     (if repaired fl tax pbc cs
      then similarity_phase fl (map fst (nodes (direct_graph fl tax pbc cs))) (direct_graph fl tax pbc cs)
      else Inr (direct_graph fl tax pbc cs))"
proof -
  have d: "distinct (map fst (nodes (direct_graph fl tax pbc cs)))"
    by (simp add: direct_graph_nodes node_phase_distinct)
  show ?thesis
    using assms
    by (auto simp: build_graph_eq Let_def repaired_def similarity_phase_eq[OF d] split: if_splits)
qed

lemma build_graph_connected:
  assumes "build_graph fl tax pbc cs = Inr G" and "graph_connected (direct_graph fl tax pbc cs)"
  shows "G = direct_graph fl tax pbc cs" and "list_all (\<lambda>e. similarity (snd e) = None) (edges G)"
proof -
  have r: "\<not> repaired fl tax pbc cs" using assms(2) by (simp add: repaired_iff)
  show g: "G = direct_graph fl tax pbc cs"
    using build_graph_one_pass[OF assms(1)] r by simp
  show "list_all (\<lambda>e. similarity (snd e) = None) (edges G)"
    unfolding g direct_graph_edges
    by (simp add: list_all_iff direct_edges_def direct_attrs_def)
qed






lemma py_int_char: "py_int [c] = (if is_digit c then Some (digit_val c) else None)"
  by (auto simp: py_int_def str_strip_def unsigned_val_def is_digit_def is_space_def)

lemma taxonomy_line_eq:
  "taxonomy_line acc raw =
     (if entry_line (str_strip raw)
      then (dict_set (fst acc) (digit_val (hd (str_strip raw))) (str_strip (drop 4 (str_strip raw))),
            snd acc)
      else if warned_line (str_strip raw) then (fst acc, snd acc @ [CouldNotParseLine (str_strip raw)])
      else acc)"
proof (cases "str_strip raw")
  case Nil
  then show ?thesis by (simp add: taxonomy_line_def entry_line_def warned_line_def)
next
  case (Cons c cs)
  then show ?thesis
    by (simp add: taxonomy_line_def entry_line_def warned_line_def py_int_char Let_def)
qed

lemma taxonomy_fold_entries:
  "map_of (fst (foldl taxonomy_line acc raws)) n =
     last (map_of (fst acc) n # map Some (names_for n (map str_strip raws)))"
proof (induction raws arbitrary: acc)
  case Nil
  show ?case by (simp add: names_for_def)
next
  case (Cons raw raws)
  show ?case
    unfolding foldl_Cons Cons.IH
    by (simp add: taxonomy_line_eq names_for_def map_of_dict_set)
qed

lemma entry_not_warned: "entry_line l \<Longrightarrow> \<not> warned_line l"
  by (simp add: entry_line_def warned_line_def)

lemma taxonomy_fold_warnings:
  "snd (foldl taxonomy_line acc raws) =
     snd acc @ map CouldNotParseLine (filter warned_line (map str_strip raws))"
proof (induction raws arbitrary: acc)
  case Nil
  show ?case by simp
next
  case (Cons raw raws)
  show ?case
    unfolding foldl_Cons Cons.IH
    by (simp add: taxonomy_line_eq entry_not_warned)
qed

lemma create_taxonomy_entries:
  "map_of (fst (create_taxonomy s)) n = last (None # map Some (names_for n (taxonomy_lines s)))"
  "snd (create_taxonomy s) = map CouldNotParseLine (filter warned_line (taxonomy_lines s))"
  by (simp_all add: create_taxonomy_def taxonomy_lines_def taxonomy_fold_entries taxonomy_fold_warnings)

lemma linked_built: "build_graph exact near_taxonomy linked_posts linked_stats = Inr linked_graph"
  by code_simp
lemma scenario_repaired: "repaired exact scenario_taxonomy scenario_posts scenario_stats"
  by code_simp
lemma scenario_graph_split: "is_connected scenario_graph = Inr False"
  by code_simp
lemma linked_direct_connected: "is_connected (direct_graph exact near_taxonomy linked_posts linked_stats) = Inr True"
  by code_simp


section \<open>The claims\<close>

subsection \<open>C1: a graph without nodes\<close>

text \<open>
  C1 says that \<open>build_graph\<close> returns the empty graph when no category qualifies for a
  node.  It does not: when no category of the taxonomy is a key of \<open>posts_by_cluster\<close>
  (in particular when the taxonomy is empty), the graph has no node, the test
  \<open>nx.is_connected(G)\<close> is evaluated before \<open>len(G.nodes()) > 1\<close>, and the call raises
  \<open>NetworkXPointlessConcept\<close>.
\<close>

theorem C1_build_graph_raises_without_nodes:
  "list_all (\<lambda>item. pbc (fst item) = None) tax \<Longrightarrow>
     build_graph fl tax pbc cs = Inl NetworkXPointlessConcept"
  by (rule build_graph_no_nodes)

theorem C1_build_graph_raises_without_nodes_witness:
  "list_all (\<lambda>item. Map.empty (fst item) = (None :: int list option)) [(1 :: int, ''Tops'')] \<and>
   build_graph exact [(1, ''Tops'')] Map.empty Map.empty = Inl NetworkXPointlessConcept"
  using C1_build_graph_raises_without_nodes [of Map.empty "[(1, ''Tops'')]" exact Map.empty]
  by simp

subsection \<open>C4: direct edges\<close>

text \<open>
  C4.  In the graph that \<open>build_graph\<close> returns, take two different nodes.  When their
  post lists have a post in common, exactly one edge joins them; its weight is the number
  of common posts, its \<open>shared_posts\<close> is a list without repetitions of exactly the
  common posts, and it has no \<open>similarity\<close>.  When they have no post in common, no edge
  between them carries \<open>shared_posts\<close>.
\<close>

theorem C4_direct_edge_iff_shared_posts:
  assumes "build_graph fl tax pbc cs = Inr G"
    and "map_of (nodes G) u = Some a" and "map_of (nodes G) v = Some b" and "u \<noteq> v"
  shows "(set (posts a) \<inter> set (posts b) \<noteq> {} \<longrightarrow>
           (\<exists>l. edges_between G u v =
                  [\<lparr>weight = Some (of_nat (card (set (posts a) \<inter> set (posts b)))),
                    shared_posts = Some l, similarity = None, edge_type = None\<rparr>] \<and>
                distinct l \<and> set l = set (posts a) \<inter> set (posts b))) \<and>
         (set (posts a) \<inter> set (posts b) = {} \<longrightarrow>
           list_all (\<lambda>e. shared_posts e = None) (edges_between G u v))"
  using assms by (rule direct_edge_unique)

theorem C4_direct_edge_iff_shared_posts_witness:
  "build_graph exact scenario_taxonomy scenario_posts scenario_stats = Inr scenario_graph \<and>
   map_of (nodes scenario_graph) 1 = Some (snd (scenario_nodes ! 0)) \<and>
   map_of (nodes scenario_graph) 2 = Some (snd (scenario_nodes ! 1)) \<and>
   (1 :: int) \<noteq> 2 \<and>
   set (posts (snd (scenario_nodes ! 0))) \<inter> set (posts (snd (scenario_nodes ! 1))) \<noteq> {} \<and>
   (\<exists>l. edges_between scenario_graph 1 2 =
          [\<lparr>weight = Some (of_nat (card (set (posts (snd (scenario_nodes ! 0))) \<inter>
                                          set (posts (snd (scenario_nodes ! 1)))))),
            shared_posts = Some l, similarity = None, edge_type = None\<rparr>] \<and>
        distinct l \<and>
        set l = set (posts (snd (scenario_nodes ! 0))) \<inter> set (posts (snd (scenario_nodes ! 1)))) \<and>
   map_of (nodes scenario_graph) 3 = Some (snd (scenario_nodes ! 2)) \<and>
   (1 :: int) \<noteq> 3 \<and>
   set (posts (snd (scenario_nodes ! 0))) \<inter> set (posts (snd (scenario_nodes ! 2))) = {} \<and>
   list_all (\<lambda>e. shared_posts e = None) (edges_between scenario_graph 1 3)"
proof -
  have h1: "build_graph exact scenario_taxonomy scenario_posts scenario_stats = Inr scenario_graph"
    by code_simp
  have h2: "map_of (nodes scenario_graph) 1 = Some (snd (scenario_nodes ! 0))"
    by code_simp
  have h3: "map_of (nodes scenario_graph) 2 = Some (snd (scenario_nodes ! 1))"
    by code_simp
  have h4: "(1 :: int) \<noteq> 2" by simp
  have h5: "set (posts (snd (scenario_nodes ! 0))) \<inter> set (posts (snd (scenario_nodes ! 1))) \<noteq> {}"
    by (simp add: scenario_nodes_def)
  have k3: "map_of (nodes scenario_graph) 3 = Some (snd (scenario_nodes ! 2))"
    by code_simp
  have k4: "(1 :: int) \<noteq> 3" by simp
  have k5: "set (posts (snd (scenario_nodes ! 0))) \<inter> set (posts (snd (scenario_nodes ! 2))) = {}"
    by (simp add: scenario_nodes_def)
  show ?thesis
    using h1 h2 h3 h4 h5 k3 k4 k5 C4_direct_edge_iff_shared_posts [OF h1 h2 h3 h4]
      C4_direct_edge_iff_shared_posts [OF h1 h2 k3 k4]
    by blast
qed

subsection \<open>C8: the two kinds of edges\<close>

text \<open>
  C8.  In the graph that \<open>build_graph\<close> returns, at most one edge joins any two nodes,
  and every edge has either \<open>shared_posts\<close> or \<open>similarity\<close>, never both and never
  neither.
\<close>

theorem C8_edge_kinds_exclusive:
  assumes "build_graph fl tax pbc cs = Inr G"
  shows "length (edges_between G u v) \<le> 1 \<and>
         list_all (\<lambda>e. (shared_posts (snd e) = None) \<noteq> (similarity (snd e) = None)) (edges G)"
  using edge_kinds [OF assms] by simp

theorem C8_edge_kinds_exclusive_witness:
  "build_graph exact scenario_taxonomy scenario_posts scenario_stats = Inr scenario_graph \<and>
   length (edges_between scenario_graph 1 2) \<le> 1 \<and>
   list_all (\<lambda>e. (shared_posts (snd e) = None) \<noteq> (similarity (snd e) = None))
     (edges scenario_graph)"
proof -
  have h1: "build_graph exact scenario_taxonomy scenario_posts scenario_stats = Inr scenario_graph"
    by code_simp
  show ?thesis
    using h1 C8_edge_kinds_exclusive [OF h1, of 1 2] by simp
qed

subsection \<open>C7: which categories become nodes\<close>

text \<open>
  C7.  For the containers that \<open>create_network_graph\<close> returns for any list of rows,
  the loop that adds the nodes makes a category a node exactly when it is in the taxonomy
  and has at least one post in \<open>posts_by_cluster\<close>; every node has a post count of at
  least one; and a graph that \<open>build_graph\<close> returns has exactly these nodes.  (The
  loop itself cannot raise; what happens afterwards when it has added no node is C1.)
\<close>

theorem C7_node_iff_category_with_posts:
  assumes "create_network_graph rows = Some st"
  shows "(c \<in> set (map fst (nodes (node_phase fl (taxonomy st) (posts_by_cluster st) (cluster_stats st)))))
           = (c \<in> set (map fst (taxonomy st)) \<and> posts_of (posts_by_cluster st) c \<noteq> []) \<and>
         list_all (\<lambda>n. 1 \<le> posts_count (snd n))
           (nodes (node_phase fl (taxonomy st) (posts_by_cluster st) (cluster_stats st))) \<and>
         (build_graph fl (taxonomy st) (posts_by_cluster st) (cluster_stats st) = Inr G \<longrightarrow>
            nodes G = nodes (node_phase fl (taxonomy st) (posts_by_cluster st) (cluster_stats st)))"
  using nodes_iff_posts [OF assms] build_graph_nodes by blast

theorem C7_node_iff_category_with_posts_witness:
  "create_network_graph scenario_rows = Some scenario_state \<and>
   (3 \<in> set (map fst (nodes (node_phase exact (taxonomy scenario_state)
        (posts_by_cluster scenario_state) (cluster_stats scenario_state))))) =
     (3 \<in> set (map fst (taxonomy scenario_state)) \<and>
      posts_of (posts_by_cluster scenario_state) 3 \<noteq> []) \<and>
   list_all (\<lambda>n. 1 \<le> posts_count (snd n))
     (nodes (node_phase exact (taxonomy scenario_state) (posts_by_cluster scenario_state)
        (cluster_stats scenario_state))) \<and>
   build_graph exact (taxonomy scenario_state) (posts_by_cluster scenario_state)
     (cluster_stats scenario_state) = Inr scenario_graph \<and>
   nodes scenario_graph =
     nodes (node_phase exact (taxonomy scenario_state) (posts_by_cluster scenario_state)
        (cluster_stats scenario_state))"
proof -
  have h: "create_network_graph scenario_rows = Some scenario_state"
    by (rule scenario_ingested)
  have b: "build_graph exact (taxonomy scenario_state) (posts_by_cluster scenario_state)
     (cluster_stats scenario_state) = Inr scenario_graph"
    using scenario_built by (simp add: scenario_state_def)
  show ?thesis
    using h b C7_node_iff_category_with_posts [OF h, where c = 3 and fl = exact and G = scenario_graph] by blast
qed

subsection \<open>C9: when the taxonomy is parsed\<close>




subsection \<open>C10: a post number on several rows\<close>



subsection \<open>C2: a single category value that is no integer\<close>




subsection \<open>C3: the taxonomy parser\<close>

text \<open>
  C3 as stated fails on three counts, all visible on one text of four lines: the line
  \<open>1. - A\<close> gives no entry of the result, because the later line \<open>1. - B\<close> takes
  its place; the line \<open>2. -\<close> is too short and is skipped without any warning; and for
  the line \<open>3abcdXY\<close> the name is \<open>dXY\<close>, what follows the first four characters,
  and not \<open>XY\<close>, what follows the digit and four more.
\<close>

theorem C3_counterexample:
  "taxonomy_lines ''1. - A\<newline>1. - B\<newline>2. -\<newline>3abcdXY'' =
     [''1. - A'', ''1. - B'', ''2. -'', ''3abcdXY''] \<and>
   create_taxonomy ''1. - A\<newline>1. - B\<newline>2. -\<newline>3abcdXY'' = ([(1, ''B''), (3, ''dXY'')], []) \<and>
   map_of (fst (create_taxonomy ''1. - A\<newline>1. - B\<newline>2. -\<newline>3abcdXY'')) 1 \<noteq> Some ''A'' \<and>
   map_of (fst (create_taxonomy ''1. - A\<newline>1. - B\<newline>2. -\<newline>3abcdXY'')) 3 \<noteq> Some ''XY'' \<and>
   snd (create_taxonomy ''1. - A\<newline>1. - B\<newline>2. -\<newline>3abcdXY'') = []"
  by code_simp

text \<open>
  C3, amended.  The lines are those of the trimmed text, each trimmed.  The parser maps
  the category id \<open>n\<close> to the name given by the last line that is longer than 4
  characters and starts with the decimal digit of \<open>n\<close>; the name is the rest of the
  line after its first four characters (the digit and three more), trimmed.  An id without
  such a line has no entry.  The warnings are exactly the lines longer than 4 characters
  that do not start with a digit, in order; shorter lines are skipped silently.
\<close>

theorem C3_taxonomy_entries:
  "map_of (fst (create_taxonomy s)) n = last (None # map Some (names_for n (taxonomy_lines s))) \<and>
   snd (create_taxonomy s) = map CouldNotParseLine (filter warned_line (taxonomy_lines s))"
  by (simp add: create_taxonomy_entries)

theorem C3_taxonomy_entries_witness:
  "map_of (fst (create_taxonomy ''1. - Tops\<newline>x. - Hats\<newline>2. - Skirts'')) 2 =
     last (None # map Some (names_for 2 (taxonomy_lines ''1. - Tops\<newline>x. - Hats\<newline>2. - Skirts''))) \<and>
   snd (create_taxonomy ''1. - Tops\<newline>x. - Hats\<newline>2. - Skirts'') =
     map CouldNotParseLine (filter warned_line (taxonomy_lines ''1. - Tops\<newline>x. - Hats\<newline>2. - Skirts'')) \<and>
   names_for 2 (taxonomy_lines ''1. - Tops\<newline>x. - Hats\<newline>2. - Skirts'') = [''Skirts''] \<and>
   filter warned_line (taxonomy_lines ''1. - Tops\<newline>x. - Hats\<newline>2. - Skirts'') = [''x. - Hats'']"
proof -
  have "names_for 2 (taxonomy_lines ''1. - Tops\<newline>x. - Hats\<newline>2. - Skirts'') = [''Skirts'']"
    "filter warned_line (taxonomy_lines ''1. - Tops\<newline>x. - Hats\<newline>2. - Skirts'') = [''x. - Hats'']"
    by code_simp+
  then show ?thesis
    using C3_taxonomy_entries [of "''1. - Tops\<newline>x. - Hats\<newline>2. - Skirts''" 2] by simp
qed

subsection \<open>C5: the similarity edges\<close>



subsection \<open>C6: when the repair pass runs\<close>

text \<open>
  C6.  When \<open>build_graph\<close> returns a graph, the repair pass has run exactly when the
  graph of the direct edges has more than one node and is not connected; the result is
  then the outcome of one run of the pass on that graph, and is that graph itself
  otherwise.  So when the graph of the direct edges is connected, nothing is added and no
  edge of the result carries a similarity.  And the result may still be disconnected
  after the pass has run: it is so on the three-post input.
\<close>

theorem C6_repair_once_iff_disconnected:
  assumes "build_graph fl tax pbc cs = Inr G"
  shows "repaired fl tax pbc cs =
           (1 < length (nodes (direct_graph fl tax pbc cs)) \<and>
            \<not> graph_connected (direct_graph fl tax pbc cs)) \<and>
         Inr G =
           (if repaired fl tax pbc cs
            then similarity_phase fl (map fst (nodes (direct_graph fl tax pbc cs)))
                   (direct_graph fl tax pbc cs)
            else Inr (direct_graph fl tax pbc cs)) \<and>
         (graph_connected (direct_graph fl tax pbc cs) \<longrightarrow>
            G = direct_graph fl tax pbc cs \<and>
            list_all (\<lambda>e. similarity (snd e) = None) (edges G)) \<and>
         (build_graph exact scenario_taxonomy scenario_posts scenario_stats = Inr scenario_graph \<and>
          repaired exact scenario_taxonomy scenario_posts scenario_stats \<and>
          \<not> graph_connected scenario_graph)"
proof -
  have "is_connected scenario_graph = Inr (graph_connected scenario_graph)"
    by (rule is_connected_correct) (simp add: scenario_graph_def scenario_nodes_def)
  then have s: "\<not> graph_connected scenario_graph"
    using scenario_graph_split by simp
  show ?thesis
    using repaired_iff [of fl tax pbc cs] build_graph_one_pass [OF assms]
      build_graph_connected [OF assms] scenario_built scenario_repaired s
    by blast
qed

theorem C6_repair_once_iff_disconnected_witness:
  "build_graph exact scenario_taxonomy scenario_posts scenario_stats = Inr scenario_graph \<and>
   repaired exact scenario_taxonomy scenario_posts scenario_stats \<and>
   1 < length (nodes (direct_graph exact scenario_taxonomy scenario_posts scenario_stats)) \<and>
   \<not> graph_connected (direct_graph exact scenario_taxonomy scenario_posts scenario_stats) \<and>
   Inr scenario_graph =
     similarity_phase exact
       (map fst (nodes (direct_graph exact scenario_taxonomy scenario_posts scenario_stats)))
       (direct_graph exact scenario_taxonomy scenario_posts scenario_stats) \<and>
   \<not> graph_connected scenario_graph \<and>
   build_graph exact near_taxonomy linked_posts linked_stats = Inr linked_graph \<and>
   graph_connected (direct_graph exact near_taxonomy linked_posts linked_stats) \<and>
   linked_graph = direct_graph exact near_taxonomy linked_posts linked_stats \<and>
   list_all (\<lambda>e. similarity (snd e) = None) (edges linked_graph)"
proof -
  have h1: "build_graph exact scenario_taxonomy scenario_posts scenario_stats = Inr scenario_graph"
    by (rule scenario_built)
  have h2: "build_graph exact near_taxonomy linked_posts linked_stats = Inr linked_graph"
    by (rule linked_built)
  have n: "nodes (direct_graph exact near_taxonomy linked_posts linked_stats) \<noteq> []"
    by code_simp
  have c: "graph_connected (direct_graph exact near_taxonomy linked_posts linked_stats)"
    using is_connected_correct [OF n] linked_direct_connected by simp
  note a = C6_repair_once_iff_disconnected [OF h1]
  note b = C6_repair_once_iff_disconnected [OF h2]
  have r: "repaired exact scenario_taxonomy scenario_posts scenario_stats"
    by (rule scenario_repaired)
  have a1: "1 < length (nodes (direct_graph exact scenario_taxonomy scenario_posts scenario_stats))"
    "\<not> graph_connected (direct_graph exact scenario_taxonomy scenario_posts scenario_stats)"
    using a r by blast+
  have a2: "Inr scenario_graph =
     similarity_phase exact
       (map fst (nodes (direct_graph exact scenario_taxonomy scenario_posts scenario_stats)))
       (direct_graph exact scenario_taxonomy scenario_posts scenario_stats)"
    using conjunct1 [OF conjunct2 [OF a]] r by (simp only: if_True)
  have a3: "\<not> graph_connected scenario_graph"
    using a by blast
  have b1: "linked_graph = direct_graph exact near_taxonomy linked_posts linked_stats"
    "list_all (\<lambda>e. similarity (snd e) = None) (edges linked_graph)"
    using b c by blast+
  show ?thesis
    using h1 h2 c r a1 a2 a3 b1 by blast
qed

end
